theory Spec2Isabelle
  imports Complex_Main "HOL-Library.Word"
begin

section \<open>Numbers of the Go program\<close>

text \<open>
  Go's \<open>float64\<close> is modelled by the reals extended with the three special values of
  IEEE 754. Arithmetic on finite values is exact (rounding, overflow to infinity and the
  sign of zero are not modelled; a zero divisor is taken to be \<open>+0\<close>, which is what the
  conversions \<open>float64(0)\<close> of the program produce); the special values follow the
  IEEE rules, which is what decides where the program yields \<open>NaN\<close> or an infinity.
  Go's \<open>int\<close> and \<open>uint64\<close> are 64-bit words, read with \<open>sint\<close> and \<open>unat\<close>.
\<close>

datatype f64 = Fin real | PInf | NInf | NaN

type_synonym go_int = "64 word"
type_synonym uint64 = "64 word"

fun fneg :: "f64 \<Rightarrow> f64" where
  "fneg (Fin a) = Fin (- a)"
| "fneg PInf = NInf"
| "fneg NInf = PInf"
| "fneg NaN = NaN"

fun fadd :: "f64 \<Rightarrow> f64 \<Rightarrow> f64" where
  "fadd NaN _ = NaN"
| "fadd _ NaN = NaN"
| "fadd (Fin a) (Fin b) = Fin (a + b)"
| "fadd PInf NInf = NaN"
| "fadd NInf PInf = NaN"
| "fadd PInf _ = PInf"
| "fadd NInf _ = NInf"
| "fadd (Fin a) PInf = PInf"
| "fadd (Fin a) NInf = NInf"

definition fsub :: "f64 \<Rightarrow> f64 \<Rightarrow> f64" where
  "fsub a b = fadd a (fneg b)"

text \<open>The sign of an infinity times or divided by a finite non-zero value.\<close>

definition inf_signed :: "bool \<Rightarrow> f64" where
  "inf_signed positive = (if positive then PInf else NInf)"

fun fmul :: "f64 \<Rightarrow> f64 \<Rightarrow> f64" where
  "fmul NaN _ = NaN"
| "fmul _ NaN = NaN"
| "fmul (Fin a) (Fin b) = Fin (a * b)"
| "fmul PInf PInf = PInf"
| "fmul PInf NInf = NInf"
| "fmul NInf PInf = NInf"
| "fmul NInf NInf = PInf"
| "fmul PInf (Fin b) = (if b = 0 then NaN else inf_signed (0 < b))"
| "fmul NInf (Fin b) = (if b = 0 then NaN else inf_signed (b < 0))"
| "fmul (Fin a) PInf = (if a = 0 then NaN else inf_signed (0 < a))"
| "fmul (Fin a) NInf = (if a = 0 then NaN else inf_signed (a < 0))"

fun fdiv :: "f64 \<Rightarrow> f64 \<Rightarrow> f64" where
  "fdiv NaN _ = NaN"
| "fdiv _ NaN = NaN"
| "fdiv (Fin a) (Fin b) =
     (if b = 0 then (if a = 0 then NaN else inf_signed (0 < a)) else Fin (a / b))"
| "fdiv (Fin a) PInf = Fin 0"
| "fdiv (Fin a) NInf = Fin 0"
| "fdiv PInf (Fin b) = inf_signed (0 \<le> b)"
| "fdiv NInf (Fin b) = inf_signed (b < 0)"
| "fdiv PInf _ = NaN"
| "fdiv NInf _ = NaN"

text \<open>Comparisons: every comparison with \<open>NaN\<close> is false.\<close>

fun flt :: "f64 \<Rightarrow> f64 \<Rightarrow> bool" where
  "flt NaN _ = False"
| "flt _ NaN = False"
| "flt (Fin a) (Fin b) = (a < b)"
| "flt PInf _ = False"
| "flt NInf NInf = False"
| "flt NInf _ = True"
| "flt (Fin a) PInf = True"
| "flt (Fin a) NInf = False"

definition feq :: "f64 \<Rightarrow> f64 \<Rightarrow> bool" where
  "feq a b = (a \<noteq> NaN \<and> a = b)"

definition fle :: "f64 \<Rightarrow> f64 \<Rightarrow> bool" where
  "fle a b = (flt a b \<or> feq a b)"

definition fgt :: "f64 \<Rightarrow> f64 \<Rightarrow> bool" where
  "fgt a b = flt b a"

definition fge :: "f64 \<Rightarrow> f64 \<Rightarrow> bool" where
  "fge a b = fle b a"

text \<open>\<open>math.Log\<close>, \<open>math.Exp\<close>, \<open>math.Sqrt\<close>, \<open>math.Floor\<close>, \<open>math.Ceil\<close> and
  \<open>math.Max\<close> of the Go library, with the special cases their documentation lists.\<close>

fun Log :: "f64 \<Rightarrow> f64" where
  "Log (Fin a) = (if a < 0 then NaN else if a = 0 then NInf else Fin (ln a))"
| "Log PInf = PInf"
| "Log NInf = NaN"
| "Log NaN = NaN"

fun Exp :: "f64 \<Rightarrow> f64" where
  "Exp (Fin a) = Fin (exp a)"
| "Exp PInf = PInf"
| "Exp NInf = Fin 0"
| "Exp NaN = NaN"

fun Sqrt :: "f64 \<Rightarrow> f64" where
  "Sqrt (Fin a) = (if a < 0 then NaN else Fin (sqrt a))"
| "Sqrt PInf = PInf"
| "Sqrt NInf = NaN"
| "Sqrt NaN = NaN"

fun Floor :: "f64 \<Rightarrow> f64" where
  "Floor (Fin a) = Fin (of_int \<lfloor>a\<rfloor>)"
| "Floor x = x"

fun Ceil :: "f64 \<Rightarrow> f64" where
  "Ceil (Fin a) = Fin (of_int \<lceil>a\<rceil>)"
| "Ceil x = x"

definition Max :: "f64 \<Rightarrow> f64 \<Rightarrow> f64" where
  "Max x y =
     (if x = PInf \<or> y = PInf then PInf
      else if x = NaN \<or> y = NaN then NaN
      else if fgt x y then x else y)"

text \<open>\<open>float64(n)\<close> of an integer (exact in the model).\<close>

definition float64 :: "int \<Rightarrow> f64" where
  "float64 n = Fin (of_int n)"

section \<open>The cost functional\<close>

text \<open>
  \<^verbatim>\<open>
  func cdfCost(value float64, dataSize int) float64 {
      if value <= 0 || value >= 1 { return 0.0 }
      conj := 1 - value
      return float64(dataSize) * ((value * math.Log(value)) - (conj * math.Log(conj)))
  }
  \<close>
\<close>

definition cdfCost :: "f64 \<Rightarrow> int \<Rightarrow> f64" where
  "cdfCost v dataSize =
     (if fle v (Fin 0) \<or> fge v (Fin 1) then Fin 0
      else let conj = fsub (Fin 1) v
           in fmul (float64 dataSize) (fsub (fmul v (Log v)) (fmul conj (Log conj))))"

section \<open>Errors and panics\<close>

text \<open>
  A Go \<open>error\<close> value is an \<open>error\<close>; a run-time panic is a \<open>panic\<close>. A function
  that can panic returns \<open>panic + 'a\<close>, one that returns an \<open>error\<close> returns
  \<open>error + 'a\<close>.
\<close>

datatype error =
    ErrWindowCapacity
  | ErrProbability
  | ErrWindowSize
  | ErrWindowNotFull
  | ErrOpt nat error

datatype panic =
    DivideByZero
  | IndexOutOfRange
  | MakeSliceLen
  | UnspecifiedConversion

section \<open>The sliding window\<close>

text \<open>
  \<^verbatim>\<open>type Window[T any] struct { data []T; lock *sync.RWMutex; count uint64 }\<close>
  The lock is left out: the model is sequential. The slice \<open>data\<close> is a list whose
  length is its capacity; the empty list stands for the \<open>nil\<close> slice of a window that
  \<open>NewWindow\<close> did not make.
\<close>

record 'a Window =
  data :: "'a list"
  count :: uint64

text \<open>\<open>NewWindow\<close>; \<open>zero\<close> is the zero value of \<open>T\<close> that \<open>make\<close> fills in.\<close>

definition NewWindow :: "'a \<Rightarrow> go_int \<Rightarrow> error + 'a Window" where
  "NewWindow zero capacity =
     (if sint capacity \<le> 0 then Inl ErrWindowCapacity
      else Inr \<lparr>data = replicate (nat (sint capacity)) zero, count = 0\<rparr>)"

definition Cap :: "'a Window \<Rightarrow> go_int" where
  "Cap w = of_nat (length (data w))"

definition Count :: "'a Window \<Rightarrow> uint64" where
  "Count w = count w"

text \<open>\<open>marker\<close>: \<open>w.count % uint64(cap(w.data))\<close>. The remainder by zero panics in Go;
  \<open>push\<close> below is the only caller that can reach it with an empty slice.\<close>

definition marker :: "'a Window \<Rightarrow> uint64" where
  "marker w = count w mod of_nat (length (data w))"

definition Len :: "'a Window \<Rightarrow> uint64" where
  "Len w =
     (if count w \<ge> of_nat (length (data w)) then of_nat (length (data w)) else marker w)"

definition Full :: "'a Window \<Rightarrow> bool" where
  "Full w = (sint (Len w) = int (length (data w)))"

definition push :: "'a Window \<Rightarrow> 'a \<Rightarrow> panic + 'a Window" where
  "push w v =
     (if data w = [] then Inl DivideByZero
      else Inr (w\<lparr>data := (data w)[unat (marker w) := v], count := count w + 1\<rparr>))"

text \<open>
  \<open>get\<close>: \<open>append(w.data[m:w.Len()], w.data[:m]...)\<close>. By the definition of \<open>Len\<close> the
  marker is at most \<open>Len\<close>, which is at most the capacity, so the slice expression is in
  range. Only the returned elements are modelled.
\<close>

definition get :: "'a Window \<Rightarrow> bool \<Rightarrow> 'a list option" where
  "get w onlyFull =
     (if data w = [] \<or> (\<not> Full w \<and> onlyFull) then None
      else let m = unat (marker w)
           in Some (drop m (take (unat (Len w)) (data w)) @ take m (data w)))"

definition Push :: "'a Window \<Rightarrow> 'a \<Rightarrow> panic + ('a Window \<times> uint64)" where
  "Push w v = (case push w v of Inl e \<Rightarrow> Inl e | Inr w' \<Rightarrow> Inr (w', count w'))"

definition PushGet :: "'a Window \<Rightarrow> 'a \<Rightarrow> panic + ('a Window \<times> uint64 \<times> 'a list option)" where
  "PushGet w v =
     (case push w v of Inl e \<Rightarrow> Inl e | Inr w' \<Rightarrow> Inr (w', count w', get w' False))"

definition PushGetFull :: "'a Window \<Rightarrow> 'a \<Rightarrow> panic + ('a Window \<times> uint64 \<times> 'a list option)" where
  "PushGetFull w v =
     (case push w v of Inl e \<Rightarrow> Inl e | Inr w' \<Rightarrow> Inr (w', count w', get w' True))"

definition Get :: "'a Window \<Rightarrow> 'a list option" where
  "Get w = get w False"

definition GetFull :: "'a Window \<Rightarrow> 'a list option" where
  "GetFull w = get w True"

text \<open>A sequence of calls of \<open>Push\<close>, one for each value of the list, oldest first.\<close>

fun pushAll :: "'a Window \<Rightarrow> 'a list \<Rightarrow> panic + 'a Window" where
  "pushAll w [] = Inr w"
| "pushAll w (x # xs) = (case Push w x of Inl e \<Rightarrow> Inl e | Inr (w', c) \<Rightarrow> pushAll w' xs)"

section \<open>Thresholds\<close>

text \<open>The interface \<open>Threshold\<close> with its two implementations, each holding one
  \<open>value float64\<close>. \<open>Changepoint\<close> never returns an error.\<close>

datatype Threshold = ThresholdStatic f64 | ThresholdEstimate f64

fun Changepoint :: "Threshold \<Rightarrow> f64 \<Rightarrow> bool" where
  "Changepoint (ThresholdStatic v) cost = fgt cost v"
| "Changepoint (ThresholdEstimate v) cost = fgt cost v"

fun Value :: "Threshold \<Rightarrow> f64" where
  "Value (ThresholdStatic v) = v"
| "Value (ThresholdEstimate v) = v"

definition NewThresholdStatic :: "f64 \<Rightarrow> Threshold" where
  "NewThresholdStatic v = ThresholdStatic v"

text \<open>
  \<^verbatim>\<open>
  func NewThresholdEstimate(probability float64, datapoints, windowSize, quantiles int) (Threshold, error) {
      if probability <= 0 || probability > 1 { return nil, fmt.Errorf(...) }
      if windowSize <= 0 { return nil, fmt.Errorf(...) }
      if (datapoints + 1) == windowSize {
          return ThresholdEstimate{value: 1.0 + (2.0 * (math.Sqrt(2.0 * (math.Log(
              (float64(windowSize) * (float64(datapoints) - float64(windowSize) + 1.0)) / probability)))))}, nil
      }
      estimateA := 1.0 - (8.0 * (1.0 / float64(quantiles)) * math.Log(
          probability/(float64(windowSize)*(float64(datapoints)-float64(windowSize)+1.0))))
      estimateB := 1.0 + (2.0 * (math.Sqrt(2.0 * (math.Log(
          (float64(windowSize) * (float64(datapoints) - float64(windowSize) + 1.0)) / probability)))))
      return ThresholdEstimate{value: math.Max(estimateA, estimateB)}, nil
  }
  \<close>
  \<open>datapoints + 1\<close> is an addition of 64-bit integers and wraps around.
\<close>

definition windowTerm :: "go_int \<Rightarrow> go_int \<Rightarrow> f64" where
  \<comment> \<open>\<open>float64(windowSize) * (float64(datapoints) - float64(windowSize) + 1.0)\<close>\<close>
  "windowTerm datapoints windowSize =
     fmul (float64 (sint windowSize))
          (fadd (fsub (float64 (sint datapoints)) (float64 (sint windowSize))) (Fin 1))"

definition NewThresholdEstimate :: "f64 \<Rightarrow> go_int \<Rightarrow> go_int \<Rightarrow> go_int \<Rightarrow> error + Threshold" where
  "NewThresholdEstimate probability datapoints windowSize quantileCount =
     (if fle probability (Fin 0) \<or> fgt probability (Fin 1) then Inl ErrProbability
      else if sint windowSize \<le> 0 then Inl ErrWindowSize
      else if datapoints + 1 = windowSize then
        Inr (ThresholdEstimate
          (fadd (Fin 1) (fmul (Fin 2)
             (Sqrt (fmul (Fin 2) (Log (fdiv (windowTerm datapoints windowSize) probability)))))))
      else
        let estimateA = fsub (Fin 1)
              (fmul (fmul (Fin 8) (fdiv (Fin 1) (float64 (sint quantileCount))))
                    (Log (fdiv probability (windowTerm datapoints windowSize))));
            estimateB = fadd (Fin 1) (fmul (Fin 2)
              (Sqrt (fmul (Fin 2) (Log (fdiv (windowTerm datapoints windowSize) probability)))))
        in Inr (ThresholdEstimate (Max estimateA estimateB)))"

text \<open>
  The closed form as the specification words it, over the mathematical integers
  \<open>D\<close>, \<open>W\<close>, \<open>K\<close>: \<open>M = W * (D - W + 1)\<close>; if \<open>D + 1 = W\<close> the value is
  \<open>1 + 2 * sqrt (2 * ln (M / p))\<close>, otherwise the larger of \<open>1 - (8 / K) * ln (p / M)\<close>
  and \<open>1 + 2 * sqrt (2 * ln (M / p))\<close>.
\<close>

definition spec_estimateB :: "f64 \<Rightarrow> int \<Rightarrow> f64" where
  "spec_estimateB p M =
     fadd (Fin 1) (fmul (Fin 2) (Sqrt (fmul (Fin 2) (Log (fdiv (float64 M) p)))))"

definition spec_estimateA :: "f64 \<Rightarrow> int \<Rightarrow> int \<Rightarrow> f64" where
  "spec_estimateA p M K =
     fsub (Fin 1) (fmul (fdiv (Fin 8) (float64 K)) (Log (fdiv p (float64 M))))"

definition spec_threshold :: "f64 \<Rightarrow> int \<Rightarrow> int \<Rightarrow> int \<Rightarrow> f64" where
  "spec_threshold p D W K =
     (let M = W * (D - W + 1)
      in if D + 1 = W then spec_estimateB p M
         else Max (spec_estimateA p M K) (spec_estimateB p M))"

section \<open>Bisection and the empirical CDF\<close>

text \<open>
  \<open>sort.Search\<close> of the Go library: binary search for the smallest index in \<open>[0, n)\<close>
  at which \<open>f\<close> holds, \<open>n\<close> if there is none.
  \<^verbatim>\<open>
  i, j := 0, n
  for i < j {
      h := int(uint(i+j) >> 1)
      if !f(h) { i = h + 1 } else { j = h }
  }
  return i
  \<close>
\<close>

function search_loop :: "(nat \<Rightarrow> bool) \<Rightarrow> nat \<Rightarrow> nat \<Rightarrow> nat" where
  "search_loop f i j =
     (if i < j then
        (let h = (i + j) div 2
         in if \<not> f h then search_loop f (h + 1) j else search_loop f i h)
      else i)"
  by pat_completeness auto
termination
  by (relation "measure (\<lambda>(f, i, j). j - i)") auto

declare search_loop.simps [simp del]

definition Search :: "nat \<Rightarrow> (nat \<Rightarrow> bool) \<Rightarrow> nat" where
  "Search n f = search_loop f 0 n"

text \<open>
  \<^verbatim>\<open>
  bisectLeft  = func(data, value) { return func(index int) bool { return data[index] >= value }, 0 }
  bisectRight = func(data, value) { return func(index int) bool { return data[index] > value }, len(data) }
  func bisect(f bisectFunc, data []float64, quantile float64) int {
      bf, def := f(data, quantile)
      index := sort.Search(len(data), bf)
      if index == -1 { return def }
      return index
  }
  \<close>
  \<open>sort.Search\<close> calls the predicate only at indices below \<open>len(data)\<close>.
\<close>

type_synonym bisectFunc = "f64 list \<Rightarrow> f64 \<Rightarrow> (nat \<Rightarrow> bool) \<times> int"

definition bisectLeft :: bisectFunc where
  "bisectLeft xs v = (\<lambda>index. fge (xs ! index) v, 0)"

definition bisectRight :: bisectFunc where
  "bisectRight xs v = (\<lambda>index. fgt (xs ! index) v, int (length xs))"

definition bisect :: "bisectFunc \<Rightarrow> f64 list \<Rightarrow> f64 \<Rightarrow> int" where
  "bisect f xs quantile =
     (let (bf, def) = f xs quantile;
          index = int (Search (length xs) bf)
      in if index = - 1 then def else index)"

text \<open>Go's integer division, which truncates towards zero.\<close>

definition go_quot :: "int \<Rightarrow> int \<Rightarrow> int" where
  "go_quot a b = sgn a * sgn b * (\<bar>a\<bar> div \<bar>b\<bar>)"

text \<open>
  \<^verbatim>\<open>
  func ecdf(data []float64, quantile float64) float64 {
      left := bisect(bisectLeft, data, quantile)
      right := bisect(bisectRight, data, quantile)
      return (float64(left) + float64((right-left)/2)) / float64(len(data))
  }
  \<close>
  \<open>(right-left)/2\<close> is a division of two \<open>int\<close>s, converted to \<open>float64\<close> afterwards.
\<close>

definition ecdf :: "f64 list \<Rightarrow> f64 \<Rightarrow> f64" where
  "ecdf xs quantile =
     (let left = bisect bisectLeft xs quantile;
          right = bisect bisectRight xs quantile
      in fdiv (fadd (float64 left) (float64 (go_quot (right - left) 2)))
              (float64 (int (length xs))))"

text \<open>The mid-rank estimate as the specification words it, with the halving done on
  real numbers.\<close>

definition spec_ecdf :: "f64 list \<Rightarrow> f64 \<Rightarrow> f64" where
  "spec_ecdf xs quantile =
     (let left_rank = bisect bisectLeft xs quantile;
          right_rank = bisect bisectRight xs quantile
      in fdiv (fadd (float64 left_rank)
                    (fdiv (float64 (right_rank - left_rank)) (Fin 2)))
              (float64 (int (length xs))))"

definition empDist :: "f64 \<Rightarrow> f64 \<Rightarrow> f64" where
  "empDist datapoint quantile =
     (if flt datapoint quantile then Fin 1
      else if fgt datapoint quantile then Fin 0
      else Fin (1 / 2))"

section \<open>Quantiles\<close>

text \<open>
  \<open>data[int(x)]\<close> for a \<open>float64\<close> \<open>x\<close>: the conversion truncates towards zero; for a
  value that is not finite Go leaves its result to the implementation. An index out of
  range panics.
\<close>

definition at_float :: "f64 list \<Rightarrow> f64 \<Rightarrow> panic + f64" where
  "at_float xs x =
     (case x of
        Fin r \<Rightarrow>
          (let k = (if 0 \<le> r then \<lfloor>r\<rfloor> else \<lceil>r\<rceil>)
           in if 0 \<le> k \<and> k < int (length xs) then Inr (xs ! nat k) else Inl IndexOutOfRange)
      | _ \<Rightarrow> Inl UnspecifiedConversion)"

text \<open>
  \<^verbatim>\<open>
  func quantile(data []float64, pct float64) float64 {
      index := float64(len(data)-1) * pct
      lower := data[int(math.Floor(index))]
      upper := data[int(math.Ceil(index))]
      if lower == upper { return lower }
      return lower + ((index - math.Floor(index)) * (upper - lower))
  }
  \<close>
\<close>

definition quantile :: "f64 list \<Rightarrow> f64 \<Rightarrow> panic + f64" where
  "quantile xs pct =
     (let index = fmul (float64 (int (length xs) - 1)) pct
      in case at_float xs (Floor index) of
           Inl p \<Rightarrow> Inl p
         | Inr lower \<Rightarrow>
             (case at_float xs (Ceil index) of
                Inl p \<Rightarrow> Inl p
              | Inr upper \<Rightarrow>
                  if feq lower upper then Inr lower
                  else Inr (fadd lower (fmul (fsub index (Floor index)) (fsub upper lower)))))"

text \<open>
  \<^verbatim>\<open>
  func quantiles(data []float64, quantileCount int) []float64 {
      quantiles := make([]float64, quantileCount)
      c := math.Log(float64((2 * len(data)) - 1))
      for i := 0; i < quantileCount; i++ {
          pct := 1.0 / (1.0 + (2.0*(float64(len(data))-1.0))*math.Exp((-c/float64(quantileCount))*(2.0*float64(i)-1.0)))
          quantiles[i] = quantile(data, pct)
      }
      return quantiles
  }
  \<close>
  \<open>make\<close> panics on a negative length.
\<close>

definition quantile_pct :: "nat \<Rightarrow> go_int \<Rightarrow> nat \<Rightarrow> f64" where
  "quantile_pct n quantileCount i =
     (let c = Log (float64 (2 * int n - 1))
      in fdiv (Fin 1)
           (fadd (Fin 1)
              (fmul (fmul (Fin 2) (fsub (float64 (int n)) (Fin 1)))
                    (Exp (fmul (fdiv (fneg c) (float64 (sint quantileCount)))
                               (fsub (fmul (Fin 2) (float64 (int i))) (Fin 1)))))))"

fun quantiles_loop :: "f64 list \<Rightarrow> go_int \<Rightarrow> nat list \<Rightarrow> panic + f64 list" where
  "quantiles_loop xs quantileCount [] = Inr []"
| "quantiles_loop xs quantileCount (i # is) =
     (case quantile xs (quantile_pct (length xs) quantileCount i) of
        Inl p \<Rightarrow> Inl p
      | Inr q \<Rightarrow>
          (case quantiles_loop xs quantileCount is of
             Inl p \<Rightarrow> Inl p
           | Inr qs \<Rightarrow> Inr (q # qs)))"

definition quantiles :: "f64 list \<Rightarrow> go_int \<Rightarrow> panic + f64 list" where
  "quantiles xs quantileCount =
     (if sint quantileCount < 0 then Inl MakeSliceLen
      else quantiles_loop xs quantileCount [0..<nat (sint quantileCount)])"

section \<open>The segment scan\<close>

text \<open>
  \<^verbatim>\<open>
  func windowUpdate(datapoint float64, length int, quantiles, cdf []float64) []float64 {
      for i := 0; i < len(quantiles); i++ {
          cdf[i] *= float64(length)
          cdf[i] -= empDist(datapoint, quantiles[i])
          cdf[i] /= float64(length - 1)
      }
      return cdf
  }
  \<close>
  The only caller passes a \<open>cdf\<close> as long as \<open>quantiles\<close>.
\<close>

definition windowUpdate :: "f64 \<Rightarrow> int \<Rightarrow> f64 list \<Rightarrow> f64 list \<Rightarrow> f64 list" where
  "windowUpdate datapoint len qs cdf =
     fold (\<lambda>i cdf.
             cdf[i := fdiv (fsub (fmul (cdf ! i) (float64 len)) (empDist datapoint (qs ! i)))
                           (float64 (len - 1))])
          [0..<length qs] cdf"

text \<open>\<open>sort.Float64s\<close>: ascending, \<open>NaN\<close> first; its order is
  \<open>x < y || (isNaN(x) && !isNaN(y))\<close>. Values that it does not order are equal in the
  model, so the sorted list does not depend on the sorting algorithm.\<close>

definition less_f64 :: "f64 \<Rightarrow> f64 \<Rightarrow> bool" where
  "less_f64 x y = (flt x y \<or> (x = NaN \<and> y \<noteq> NaN))"

fun insert_f64 :: "f64 \<Rightarrow> f64 list \<Rightarrow> f64 list" where
  "insert_f64 x [] = [x]"
| "insert_f64 x (y # ys) = (if less_f64 y x then y # insert_f64 x ys else x # y # ys)"

definition Float64s :: "f64 list \<Rightarrow> f64 list" where
  "Float64s xs = foldr insert_f64 xs []"

text \<open>\<open>Cost\<close>: the field \<open>value\<close> of the source is \<open>costValue\<close> here.\<close>

record Cost =
  dataIndex :: uint64
  costValue :: f64

record NuncProcessor =
  window :: "f64 Window"

definition New :: "go_int \<Rightarrow> error + NuncProcessor" where
  "New windowSize =
     (case NewWindow (Fin 0) windowSize of
        Inl e \<Rightarrow> Inl e
      | Inr w \<Rightarrow> Inr \<lparr>window = w\<rparr>)"

text \<open>
  One pass of the body of the scan loop of \<open>Process\<close>, up to the cost of the split at
  \<open>i\<close>; it returns the updated \<open>rightCDF\<close> and that cost.
  \<^verbatim>\<open>
  length := len(sorted) - i
  rightCDF = windowUpdate(dataset[i], length, q, rightCDF)
  length -= 1
  for j := 0; j < len(q); j++ {
      leftCDF[j] = ((fullCDF[j] * float64(len(sorted))) - (rightCDF[j] * float64(length))) / (float64(len(sorted) - length))
  }
  leftCost := 0.0
  for _, c := range leftCDF { leftCost += cdfCost(c, len(sorted)-length) }
  rightCost := 0.0
  for _, c := range rightCDF { rightCost += cdfCost(c, length) }
  cost := 2.0 * (leftCost + rightCost - fullCost)
  \<close>
\<close>

definition sumCost :: "f64 list \<Rightarrow> int \<Rightarrow> f64" where
  "sumCost cdf n = foldl (\<lambda>s c. fadd s (cdfCost c n)) (Fin 0) cdf"

definition segment_cost ::
  "f64 list \<Rightarrow> f64 list \<Rightarrow> f64 list \<Rightarrow> f64 \<Rightarrow> nat \<Rightarrow> f64 list \<Rightarrow> f64 list \<times> f64" where
  "segment_cost dataset q fullCDF fullCost i rightCDF =
     (let n = int (length dataset);
          len = n - int i;
          rightCDF' = windowUpdate (dataset ! i) len q rightCDF;
          len' = len - 1;
          leftCDF = map (\<lambda>j. fdiv (fsub (fmul (fullCDF ! j) (float64 n))
                                        (fmul (rightCDF' ! j) (float64 len')))
                                  (float64 (n - len')))
                        [0..<length q];
          leftCost = sumCost leftCDF (n - len');
          rightCost = sumCost rightCDF' len';
          cost = fmul (Fin 2) (fsub (fadd leftCost rightCost) fullCost)
      in (rightCDF', cost))"

text \<open>
  The scan loop \<open>for i := 0; i < len(sorted); i++\<close> with its running maximum:
  \<^verbatim>\<open>
  if cost > maxCost.value {
      maxCost.dataIndex = count - 1 - uint64(proc.window.Cap()) + uint64(i)
      maxCost.value = cost
  }
  \<close>
\<close>

fun segment_loop ::
  "f64 list \<Rightarrow> f64 list \<Rightarrow> f64 list \<Rightarrow> f64 \<Rightarrow> uint64 \<Rightarrow> go_int \<Rightarrow> nat list
     \<Rightarrow> f64 list \<Rightarrow> Cost \<Rightarrow> Cost" where
  "segment_loop dataset q fullCDF fullCost cnt capacity [] rightCDF maxCost = maxCost"
| "segment_loop dataset q fullCDF fullCost cnt capacity (i # is) rightCDF maxCost =
     (let (rightCDF', cost) = segment_cost dataset q fullCDF fullCost i rightCDF
      in segment_loop dataset q fullCDF fullCost cnt capacity is rightCDF'
           (if fgt cost (costValue maxCost)
            then \<lparr>dataIndex = cnt - 1 - capacity + of_nat i, costValue = cost\<rparr>
            else maxCost))"

text \<open>
  \<open>Process\<close>: the outer \<open>Inl\<close> is a panic; otherwise the processor after the push and
  either the error "window is not yet fully populated" or the cost.
\<close>

definition Process ::
  "NuncProcessor \<Rightarrow> f64 \<Rightarrow> go_int \<Rightarrow> panic + (NuncProcessor \<times> (error + Cost))" where
  "Process proc v quantileCount =
     (case PushGetFull (window proc) v of
        Inl p \<Rightarrow> Inl p
      | Inr (w', cnt, None) \<Rightarrow> Inr (proc\<lparr>window := w'\<rparr>, Inl ErrWindowNotFull)
      | Inr (w', cnt, Some dataset) \<Rightarrow>
          (let sorted = Float64s dataset
           in case quantiles sorted quantileCount of
                Inl p \<Rightarrow> Inl p
              | Inr q \<Rightarrow>
                  (let fullCDF = map (ecdf sorted) q;
                       fullCost = sumCost fullCDF (int (length dataset));
                       maxCost = segment_loop dataset q fullCDF fullCost cnt (Cap w')
                                   [0..<length sorted] fullCDF
                                   \<lparr>dataIndex = 0, costValue = Fin 0\<rparr>
                   in Inr (proc\<lparr>window := w'\<rparr>, Inr maxCost))))"

section \<open>The detector\<close>

text \<open>\<open>NUNC\<close>: the field \<open>quantiles\<close> of the source is \<open>quantileCount\<close> here, the
  name \<open>quantiles\<close> being that of the function above; the method \<open>Push\<close> of \<open>NUNC\<close>
  is \<open>NUNC_Push\<close>, \<open>Push\<close> being the method of \<open>Window\<close>.\<close>

record NUNC =
  processor :: NuncProcessor
  threshold :: "Threshold option"
  windowSize :: go_int
  quantileCount :: go_int
  changepoints :: "uint64 list"

text \<open>A \<open>NuncOpt\<close> changes the detector or returns an error.\<close>

type_synonym NuncOpt = "NUNC \<Rightarrow> error + NUNC"

fun apply_opts :: "nat \<Rightarrow> NuncOpt list \<Rightarrow> NUNC \<Rightarrow> error + NUNC" where
  "apply_opts idx [] n = Inr n"
| "apply_opts idx (opt # opts) n =
     (case opt n of
        Inl e \<Rightarrow> Inl (ErrOpt idx e)
      | Inr n' \<Rightarrow> apply_opts (idx + 1) opts n')"

definition NewNUNC :: "go_int \<Rightarrow> go_int \<Rightarrow> NuncOpt list \<Rightarrow> error + NUNC" where
  "NewNUNC wSize qCount opts =
     (case New wSize of
        Inl e \<Rightarrow> Inl e
      | Inr p \<Rightarrow>
          apply_opts 0 opts
            \<lparr>processor = p, threshold = None, windowSize = wSize,
             quantileCount = qCount, changepoints = []\<rparr>)"

definition OptThresholdEstimate :: "f64 \<Rightarrow> NuncOpt" where
  "OptThresholdEstimate probability n =
     (case NewThresholdEstimate probability 1000 (windowSize n) (quantileCount n) of
        Inl e \<Rightarrow> Inl e
      | Inr t \<Rightarrow> Inr (n\<lparr>threshold := Some t\<rparr>))"

definition OptThreshold :: "f64 \<Rightarrow> NuncOpt" where
  "OptThreshold v n = Inr (n\<lparr>threshold := Some (NewThresholdStatic v)\<rparr>)"

text \<open>
  \<^verbatim>\<open>
  func (n *NUNC) Push(datapoint float64) uint64 {
      if cost, err := n.processor.Process(datapoint, n.quantiles); err == nil && cost != nil {
          if n.threshold != nil {
              if change, err := n.threshold.Changepoint(cost.Value()); err == nil && change {
                  if ok := slices.Contains(n.changepoints, cost.Index()); !ok {
                      n.changepoints = append(n.changepoints, cost.Index())
                      return cost.Index()
                  }
              }
          }
      }
      return 0
  }
  \<close>
  A panic of \<open>Process\<close> is not recovered.
\<close>

definition NUNC_Push :: "NUNC \<Rightarrow> f64 \<Rightarrow> panic + (NUNC \<times> uint64)" where
  "NUNC_Push n datapoint =
     (case Process (processor n) datapoint (quantileCount n) of
        Inl p \<Rightarrow> Inl p
      | Inr (proc', Inl err) \<Rightarrow> Inr (n\<lparr>processor := proc'\<rparr>, 0)
      | Inr (proc', Inr cost) \<Rightarrow>
          (let n' = n\<lparr>processor := proc'\<rparr>
           in case threshold n' of
                None \<Rightarrow> Inr (n', 0)
              | Some t \<Rightarrow>
                  if Changepoint t (costValue cost) then
                    (if dataIndex cost \<in> set (changepoints n') then Inr (n', 0)
                     else Inr (n'\<lparr>changepoints := changepoints n' @ [dataIndex cost]\<rparr>,
                               dataIndex cost))
                  else Inr (n', 0)))"

text \<open>A sequence of calls of \<open>NUNC.Push\<close>, with the list of the values they return.\<close>

fun NUNC_PushAll :: "NUNC \<Rightarrow> f64 list \<Rightarrow> panic + (NUNC \<times> uint64 list)" where
  "NUNC_PushAll n [] = Inr (n, [])"
| "NUNC_PushAll n (x # xs) =
     (case NUNC_Push n x of
        Inl p \<Rightarrow> Inl p
      | Inr (n', r) \<Rightarrow>
          (case NUNC_PushAll n' xs of
             Inl p \<Rightarrow> Inl p
           | Inr (n'', rs) \<Rightarrow> Inr (n'', r # rs)))"

section \<open>Notions used to state the properties\<close>

text \<open>The list of what the scan loop computes at each index of \<open>is\<close>, in order: the
  \<open>rightCDF\<close> after \<open>windowUpdate\<close> and the cost of the split.\<close>

fun segment_trace ::
  "f64 list \<Rightarrow> f64 list \<Rightarrow> f64 list \<Rightarrow> f64 \<Rightarrow> nat list \<Rightarrow> f64 list
     \<Rightarrow> (f64 list \<times> f64) list" where
  "segment_trace dataset q fullCDF fullCost [] rightCDF = []"
| "segment_trace dataset q fullCDF fullCost (i # is) rightCDF =
     (let (rightCDF', cost) = segment_cost dataset q fullCDF fullCost i rightCDF
      in (rightCDF', cost) # segment_trace dataset q fullCDF fullCost is rightCDF')"

text \<open>The scan of \<open>Process\<close> on the full window \<open>dataset\<close> with the quantile values
  \<open>q\<close>.\<close>

definition scan_trace :: "f64 list \<Rightarrow> f64 list \<Rightarrow> (f64 list \<times> f64) list" where
  "scan_trace dataset q =
     (let sorted = Float64s dataset;
          fullCDF = map (ecdf sorted) q;
          fullCost = sumCost fullCDF (int (length dataset))
      in segment_trace dataset q fullCDF fullCost [0..<length sorted] fullCDF)"

definition segment_costs :: "f64 list \<Rightarrow> f64 list \<Rightarrow> f64 list" where
  "segment_costs dataset q = map snd (scan_trace dataset q)"

text \<open>Index \<open>i\<close> is the first one at which the list of costs attains its maximum, and
  that maximum exceeds 0.\<close>

definition first_max :: "f64 list \<Rightarrow> nat \<Rightarrow> bool" where
  "first_max cs i =
     (i < length cs \<and> fgt (cs ! i) (Fin 0)
      \<and> (\<forall>k < length cs. \<not> fgt (cs ! k) (cs ! i))
      \<and> (\<forall>k < i. cs ! k \<noteq> cs ! i))"

text \<open>The running maximum of the scan loop alone, over a list of indices paired with
  their costs.\<close>

fun track_max :: "uint64 \<Rightarrow> go_int \<Rightarrow> (nat \<times> f64) list \<Rightarrow> Cost \<Rightarrow> Cost" where
  "track_max cnt capacity [] m = m"
| "track_max cnt capacity ((i, cost) # ps) m =
     track_max cnt capacity ps
       (if fgt cost (costValue m)
        then \<lparr>dataIndex = cnt - 1 - capacity + of_nat i, costValue = cost\<rparr>
        else m)"

definition finite_f64 :: "f64 \<Rightarrow> bool" where
  "finite_f64 x = (case x of Fin r \<Rightarrow> True | _ \<Rightarrow> False)"

section \<open>Properties of the cost functional\<close>

lemma cdfCost_inside:
  assumes "0 < v" "v < 1"
  shows "cdfCost (Fin v) n = Fin (of_int n * (v * ln v - (1 - v) * ln (1 - v)))"
  using assms by (simp add: cdfCost_def fle_def fge_def feq_def fsub_def float64_def)

lemma cdfCost_outside:
  assumes "v \<le> 0 \<or> 1 \<le> v"
  shows "cdfCost (Fin v) n = Fin 0"
  using assms by (auto simp: cdfCost_def fle_def fge_def feq_def)








section \<open>Properties of the sliding window\<close>

lemma unat_of_nat64: "n < 2 ^ 64 \<Longrightarrow> unat (of_nat n :: 64 word) = n"
  by (simp add: unat_of_nat)

lemma sint_of_nat64: "n < 2 ^ 63 \<Longrightarrow> sint (of_nat n :: 64 word) = int n"
proof -
  assume n: "n < 2 ^ 63"
  show ?thesis
    using int_word_sint [where ?'a = 64 and x = "int n"] n by simp
qed

lemma le_of_nat64:
  "a < 2 ^ 64 \<Longrightarrow> b < 2 ^ 64 \<Longrightarrow> ((of_nat a :: 64 word) \<le> of_nat b) = (a \<le> b)"
  by (simp add: word_le_nat_alt unat_of_nat64)

lemma sint_pos_bound: "0 < sint (c :: 64 word) \<Longrightarrow> nat (sint c) < 2 ^ 63"
  using sint_lt [of c] by simp

lemma of_nat_nat_sint: "0 < sint (c :: 64 word) \<Longrightarrow> of_nat (nat (sint c)) = c"
  by simp

lemma push_fill:
  assumes "0 < k" "length ys + k < 2 ^ 63"
  shows "push \<lparr>data = ys @ replicate k z, count = of_nat (length ys)\<rparr> x
       = Inr \<lparr>data = (ys @ [x]) @ replicate (k - 1) z, count = of_nat (length (ys @ [x]))\<rparr>"
proof -
  have lt: "length ys < 2 ^ 64" "length ys + k < 2 ^ 64"
    using assms by simp_all
  have "unat (of_nat (length ys) mod of_nat (length ys + k) :: 64 word) = length ys"
    using assms lt by (simp add: unat_mod unat_of_nat64 del: of_nat_add)
  moreover have "(ys @ replicate k z)[length ys := x] = (ys @ [x]) @ replicate (k - 1) z"
    using assms by (cases k) (simp_all add: list_update_append)
  ultimately show ?thesis
    using assms by (simp add: push_def marker_def del: of_nat_add)
qed

lemma pushAll_fill:
  assumes "length xs \<le> k" "length ys + k < 2 ^ 63"
  shows "pushAll \<lparr>data = ys @ replicate k z, count = of_nat (length ys)\<rparr> xs
       = Inr \<lparr>data = ys @ xs @ replicate (k - length xs) z,
              count = of_nat (length ys + length xs)\<rparr>"
  using assms
proof (induction xs arbitrary: ys k)
  case Nil
  then show ?case by simp
next
  case (Cons x xs)
  then have k: "0 < k" by auto
  have step: "push \<lparr>data = ys @ replicate k z, count = of_nat (length ys)\<rparr> x
       = Inr \<lparr>data = (ys @ [x]) @ replicate (k - 1) z, count = of_nat (length (ys @ [x]))\<rparr>"
    using k Cons.prems(2) by (rule push_fill)
  have "pushAll \<lparr>data = (ys @ [x]) @ replicate (k - 1) z, count = of_nat (length (ys @ [x]))\<rparr> xs
       = Inr \<lparr>data = (ys @ [x]) @ xs @ replicate (k - 1 - length xs) z,
              count = of_nat (length (ys @ [x]) + length xs)\<rparr>"
    using Cons.prems k by (intro Cons.IH) simp_all
  then show ?case
    using step by (simp add: Push_def del: of_nat_add)
qed

lemma GetFull_partial:
  assumes "n < k" "k < 2 ^ 63" "length d = k"
  shows "GetFull \<lparr>data = d, count = of_nat n\<rparr> = None"
proof -
  have "\<not> ((of_nat k :: 64 word) \<le> of_nat n)"
    using assms by (simp add: le_of_nat64)
  moreover have "unat (of_nat n mod of_nat k :: 64 word) = n"
    using assms by (simp add: unat_mod unat_of_nat64)
  then have "(of_nat n mod of_nat k :: 64 word) = of_nat n"
    using assms by (simp add: word_unat_eq_iff unat_of_nat64)
  ultimately show ?thesis
    using assms by (simp add: GetFull_def get_def Full_def Len_def marker_def sint_of_nat64)
qed

lemma GetFull_exact:
  assumes "0 < k" "k < 2 ^ 63" "length d = k"
  shows "GetFull \<lparr>data = d, count = of_nat k\<rparr> = Some d"
  using assms by (auto simp: GetFull_def get_def Full_def Len_def marker_def sint_of_nat64 unat_of_nat64)


text \<open>
  Claim C9: for a window made by \<open>NewWindow\<close> with capacity \<open>C > 0\<close>, after fewer than
  \<open>C\<close> pushes (so after any \<open>C - 1\<close> pushes) the full-only snapshot \<open>GetFull\<close> returns
  nothing; the \<open>C\<close>-th push, made with \<open>PushGetFull\<close>, returns the count \<open>C\<close> and exactly
  the \<open>C\<close> pushed values, oldest first, and so does \<open>GetFull\<close> after it.
\<close>

theorem window_full_snapshot:
  assumes "NewWindow z C = Inr w0"
  shows "(int (length xs) < sint C \<longrightarrow> (\<exists>w1. pushAll w0 xs = Inr w1 \<and> GetFull w1 = None))
       \<and> (int (length xs) + 1 = sint C \<longrightarrow>
            (\<exists>w1 w2. pushAll w0 xs = Inr w1
               \<and> PushGetFull w1 x = Inr (w2, C, Some (xs @ [x]))
               \<and> GetFull w2 = Some (xs @ [x])
               \<and> int (length (xs @ [x])) = sint C))"
proof -
  define n where "n = nat (sint C)"
  have pos: "0 < sint C" and w0: "w0 = \<lparr>data = replicate n z, count = 0\<rparr>"
    using assms by (auto simp: NewWindow_def n_def split: if_splits)
  have n: "n < 2 ^ 63" "0 < n" "int n = sint C" "of_nat n = C"
    using pos sint_pos_bound [OF pos] of_nat_nat_sint [OF pos] by (simp_all add: n_def)
  have fill: "pushAll w0 xs
      = Inr \<lparr>data = xs @ replicate (n - length xs) z, count = of_nat (length xs)\<rparr>"
    if "length xs \<le> n"
    using pushAll_fill [of xs n "[]" z] that n(1) by (simp add: w0)
  show ?thesis
  proof (intro conjI impI)
    assume "int (length xs) < sint C"
    then have lt: "length xs < n" using n(3) by simp
    have "GetFull \<lparr>data = xs @ replicate (n - length xs) z, count = of_nat (length xs)\<rparr> = None"
      using lt n(1) by (intro GetFull_partial [of _ n]) simp_all
    then show "\<exists>w1. pushAll w0 xs = Inr w1 \<and> GetFull w1 = None"
      using fill lt by simp
  next
    assume "int (length xs) + 1 = sint C"
    then have eq: "length xs + 1 = n" using n(3) by simp
    then have one: "n - length xs = 1" by simp
    have p: "push \<lparr>data = xs @ replicate 1 z, count = of_nat (length xs)\<rparr> x
       = Inr \<lparr>data = (xs @ [x]) @ replicate (1 - 1) z, count = of_nat (length (xs @ [x]))\<rparr>"
      using eq n(1) by (intro push_fill) simp_all
    have cnt: "(of_nat (length (xs @ [x])) :: 64 word) = C"
      using eq n(4) by simp
    have g: "GetFull \<lparr>data = xs @ [x], count = of_nat n\<rparr> = Some (xs @ [x])"
      using eq n(1) n(2) by (intro GetFull_exact) simp_all
    have "PushGetFull \<lparr>data = xs @ replicate 1 z, count = of_nat (length xs)\<rparr> x
        = Inr (\<lparr>data = xs @ [x], count = C\<rparr>, C, Some (xs @ [x]))"
      using p cnt g n(4) by (simp add: PushGetFull_def GetFull_def del: of_nat_add of_nat_Suc)
    moreover have "GetFull \<lparr>data = xs @ [x], count = C\<rparr> = Some (xs @ [x])"
      using g n(4) by simp
    moreover have "int (length (xs @ [x])) = sint C"
      using eq n(3) by simp
    ultimately show "\<exists>w1 w2. pushAll w0 xs = Inr w1
               \<and> PushGetFull w1 x = Inr (w2, C, Some (xs @ [x]))
               \<and> GetFull w2 = Some (xs @ [x])
               \<and> int (length (xs @ [x])) = sint C"
      using fill eq one by (metis le_add1)
  qed
qed

theorem window_full_snapshot_witness:
  "(\<exists>w1. pushAll \<lparr>data = [0, 0, 0 :: int], count = 0\<rparr> [10, 20] = Inr w1 \<and> GetFull w1 = None)
   \<and> (\<exists>w1 w2. pushAll \<lparr>data = [0, 0, 0 :: int], count = 0\<rparr> [10, 20] = Inr w1
         \<and> PushGetFull w1 30 = Inr (w2, 3, Some [10, 20, 30])
         \<and> GetFull w2 = Some [10, 20, 30])"
proof -
  have "NewWindow (0 :: int) 3 = Inr \<lparr>data = [0, 0, 0], count = 0\<rparr>"
    by (simp add: NewWindow_def numeral_3_eq_3)
  from window_full_snapshot [OF this, of "[10, 20]" 30] show ?thesis
    by simp
qed

section \<open>The estimated threshold\<close>

lemma windowTerm_eq:
  "windowTerm D W = float64 (sint W * (sint D - sint W + 1))"
  by (simp add: windowTerm_def float64_def fsub_def)

lemma succ_eq_iff_sint:
  fixes D W :: "64 word"
  assumes "0 < sint W"
  shows "(D + 1 = W) = (sint D + 1 = sint W)"
proof
  assume e: "D + 1 = W"
  have "sint (D + 1) = signed_take_bit 63 (sint D + 1)"
    by (simp add: sint_word_ariths)
  moreover have "sint D < 2 ^ 63" "- (2 ^ 63) \<le> sint D"
    using sint_lt [of D] sint_ge [of D] by simp_all
  ultimately show "sint D + 1 = sint W"
  proof (cases "sint D + 1 < 2 ^ 63")
    case True
    then have "signed_take_bit 63 (sint D + 1) = sint D + 1"
      using \<open>- (2 ^ 63) \<le> sint D\<close> by (intro signed_take_bit_int_eq_self) simp_all
    then show ?thesis using e \<open>sint (D + 1) = _\<close> by simp
  next
    case False
    then have "sint D + 1 = 2 ^ 63" using \<open>sint D < 2 ^ 63\<close> by simp
    then have "sint (D + 1) = signed_take_bit 63 (2 ^ 63 :: int)"
      using \<open>sint (D + 1) = _\<close> by simp
    also have "\<dots> = - (2 ^ 63)"
      by (simp add: signed_take_bit_eq_take_bit_minus)
    finally show ?thesis using assms e by simp
  qed
next
  assume "sint D + 1 = sint W"
  then have "(word_of_int (sint D + 1) :: 64 word) = word_of_int (sint W)" by simp
  then show "D + 1 = W" by simp
qed

lemma eight_over: "fmul (Fin 8) (fdiv (Fin 1) (float64 k)) = fdiv (Fin 8) (float64 k)"
  by (simp add: float64_def inf_signed_def)

text \<open>
  Claim C8: for a probability \<open>p\<close> in \<open>(0, 1]\<close>, a run length \<open>D\<close>, a window capacity
  \<open>W > 0\<close> and a quantile count \<open>K\<close>, \<open>NewThresholdEstimate\<close> succeeds and the value it
  stores, which \<open>Value\<close> returns unchanged ever after, is the closed form of the
  specification: with \<open>M = W * (D - W + 1)\<close>, it is \<open>1 + 2 * sqrt (2 * ln (M / p))\<close> when
  \<open>D + 1 = W\<close> and the larger of \<open>1 - (8 / K) * ln (p / M)\<close> and that value otherwise. The
  result is a function of the four arguments only.
\<close>

theorem threshold_estimate_closed_form:
  assumes "0 < p" "p \<le> 1" "0 < sint W"
  shows "NewThresholdEstimate (Fin p) D W K
           = Inr (ThresholdEstimate (spec_threshold (Fin p) (sint D) (sint W) (sint K)))
       \<and> Value (ThresholdEstimate (spec_threshold (Fin p) (sint D) (sint W) (sint K)))
           = spec_threshold (Fin p) (sint D) (sint W) (sint K)"
proof -
  have guard: "\<not> (fle (Fin p) (Fin 0) \<or> fgt (Fin p) (Fin 1))"
    using assms by (simp add: fle_def fgt_def feq_def)
  have "NewThresholdEstimate (Fin p) D W K
           = Inr (ThresholdEstimate (spec_threshold (Fin p) (sint D) (sint W) (sint K)))"
    unfolding NewThresholdEstimate_def spec_threshold_def spec_estimateA_def spec_estimateB_def
    using guard assms(3) succ_eq_iff_sint [OF assms(3), of D]
    by (simp add: windowTerm_eq eight_over Let_def)
  then show ?thesis by simp
qed

theorem threshold_estimate_closed_form_witness:
  "NewThresholdEstimate (Fin 1) 1 1 1 = Inr (ThresholdEstimate (Fin 1))
   \<and> NewThresholdEstimate (Fin 1) 0 1 1 = Inr (ThresholdEstimate NaN)"
proof -
  have "spec_threshold (Fin 1) 1 1 1 = Fin 1"
    by (simp add: spec_threshold_def spec_estimateA_def spec_estimateB_def float64_def
        fsub_def Max_def fgt_def)
  moreover have "spec_threshold (Fin 1) 0 1 1 = NaN"
    by (simp add: spec_threshold_def spec_estimateB_def float64_def inf_signed_def)
  ultimately show ?thesis
    using threshold_estimate_closed_form [of 1 1 1 1]
      threshold_estimate_closed_form [of 1 1 0 1] by simp
qed

section \<open>The empirical CDF\<close>

lemma search_loop_done: "\<not> i < j \<Longrightarrow> search_loop f i j = i"
  by (subst search_loop.simps) simp

lemma search_loop_step:
  "i < j \<Longrightarrow> search_loop f i j
     = (if f ((i + j) div 2) then search_loop f i ((i + j) div 2)
        else search_loop f ((i + j) div 2 + 1) j)"
  by (subst search_loop.simps) (simp add: Let_def)

lemma Search_1: "Search (Suc 0) f = (if f 0 then 0 else 1)"
proof -
  have "Search 1 f = (if f 0 then 0 else 1)"
    by (simp add: Search_def search_loop_step search_loop_done del: One_nat_def)
  then show ?thesis by simp
qed

lemma Search_3:
  "Search (Suc (Suc (Suc 0))) f
     = (if f 1 then (if f 0 then 0 else 1) else (if f 2 then 2 else 3))"
proof -
  have "Search 3 f = (if f 1 then (if f 0 then 0 else 1) else (if f 2 then 2 else 3))"
    by (simp add: Search_def search_loop_step search_loop_done del: One_nat_def)
  then show ?thesis by (simp add: numeral_3_eq_3)
qed

text \<open>
  Claim C2 asks for the mid-rank estimate \<open>(left + (right - left) / 2) / N\<close> with the halving
  done on real numbers. \<open>ecdf\<close> halves the rank gap with the integer division of Go
  before converting to \<open>float64\<close>: on the one-element window \<open>[1]\<close> and the quantile
  value \<open>1\<close> the ranks are \<open>0\<close> and \<open>1\<close>, \<open>ecdf\<close> returns \<open>0\<close> and the mid-rank estimate
  is \<open>1/2\<close>. The scan itself counts a tie as one half (\<open>empDist\<close>).
\<close>

theorem ecdf_integer_halving:
  "ecdf [Fin 1] (Fin 1) = Fin 0 \<and> spec_ecdf [Fin 1] (Fin 1) = Fin (1 / 2)"
  by (simp add: ecdf_def spec_ecdf_def bisect_def bisectLeft_def bisectRight_def Search_1
      fge_def fgt_def fle_def feq_def go_quot_def float64_def)

lemma empDist_tie: "empDist (Fin 1) (Fin 1) = Fin (1 / 2)"
  by (simp add: empDist_def fgt_def)

section \<open>Construction\<close>

lemma NewWindow_rejects: "sint C \<le> 0 \<Longrightarrow> NewWindow z C = Inl ErrWindowCapacity"
  by (simp add: NewWindow_def)

lemma New_rejects: "sint W \<le> 0 \<Longrightarrow> New W = Inl ErrWindowCapacity"
  by (simp add: New_def NewWindow_def)

lemma NewNUNC_rejects: "sint W \<le> 0 \<Longrightarrow> NewNUNC W K opts = Inl ErrWindowCapacity"
  by (simp add: NewNUNC_def New_rejects)

lemma NewThresholdEstimate_rejects_probability:
  "p \<le> 0 \<or> 1 < p \<Longrightarrow> NewThresholdEstimate (Fin p) D W K = Inl ErrProbability"
  by (auto simp: NewThresholdEstimate_def fle_def fgt_def feq_def)

lemma NewThresholdEstimate_rejects_inf:
  "NewThresholdEstimate PInf D W K = Inl ErrProbability"
  "NewThresholdEstimate NInf D W K = Inl ErrProbability"
  by (simp_all add: NewThresholdEstimate_def fle_def fgt_def feq_def)

lemma NewThresholdEstimate_rejects_window:
  "sint W \<le> 0 \<Longrightarrow> isl (NewThresholdEstimate p D W K)"
  by (simp add: NewThresholdEstimate_def)

lemma OptThresholdEstimate_rejects:
  "p \<le> 0 \<or> 1 < p \<Longrightarrow> OptThresholdEstimate (Fin p) n = Inl ErrProbability"
  by (simp add: OptThresholdEstimate_def NewThresholdEstimate_rejects_probability)

lemma apply_opts_rejects:
  "opt \<in> set opts \<Longrightarrow> (\<forall>n. isl (opt n)) \<Longrightarrow> isl (apply_opts idx opts n)"
proof (induction opts arbitrary: idx n)
  case Nil
  then show ?case by simp
next
  case (Cons o1 opts)
  show ?case
  proof (cases "o1 n")
    case (Inl e)
    then show ?thesis by simp
  next
    case (Inr n')
    have "opt \<noteq> o1"
      using Cons.prems(2) Inr by (metis sum.disc(2))
    then have "opt \<in> set opts" using Cons.prems(1) by simp
    then show ?thesis using Cons.IH Cons.prems(2) Inr by simp
  qed
qed

lemma NewNUNC_accepts:
  assumes "0 < sint W"
  shows "NewNUNC W K [] = Inr \<lparr>processor = \<lparr>window = \<lparr>data = replicate (nat (sint W)) (Fin 0), count = 0\<rparr>\<rparr>,
           threshold = None, windowSize = W, quantileCount = K, changepoints = []\<rparr>"
  using assms by (simp add: NewNUNC_def New_def NewWindow_def)

text \<open>
  What the constructors check: a window capacity that is not positive is refused by
  \<open>NewWindow\<close>, \<open>New\<close> and \<open>NewNUNC\<close>; a probability outside \<open>(0, 1]\<close> is refused by
  \<open>NewThresholdEstimate\<close>, and by \<open>NewNUNC\<close> when \<open>OptThresholdEstimate\<close> is among its
  options; with a positive capacity and no estimated threshold \<open>NewNUNC\<close> succeeds
  whatever the quantile count is.
\<close>

lemma construction_errors:
  "(sint W \<le> 0 \<longrightarrow> NewWindow z W = Inl ErrWindowCapacity \<and> New W = Inl ErrWindowCapacity
        \<and> NewNUNC W K opts = Inl ErrWindowCapacity)
   \<and> (p \<le> 0 \<or> 1 < p \<longrightarrow> NewThresholdEstimate (Fin p) D W K = Inl ErrProbability)
   \<and> ((p \<le> 0 \<or> 1 < p) \<and> OptThresholdEstimate (Fin p) \<in> set opts \<longrightarrow> isl (NewNUNC W K opts))
   \<and> (0 < sint W \<longrightarrow> \<not> isl (NewNUNC W K []) \<and> \<not> isl (NewNUNC W K [OptThreshold v]))"
proof (intro conjI impI)
  assume "sint W \<le> 0"
  then show "NewWindow z W = Inl ErrWindowCapacity" "New W = Inl ErrWindowCapacity"
    "NewNUNC W K opts = Inl ErrWindowCapacity"
    by (simp_all add: NewWindow_rejects New_rejects NewNUNC_rejects)
next
  assume "p \<le> 0 \<or> 1 < p"
  then show "NewThresholdEstimate (Fin p) D W K = Inl ErrProbability"
    by (rule NewThresholdEstimate_rejects_probability)
next
  assume a: "(p \<le> 0 \<or> 1 < p) \<and> OptThresholdEstimate (Fin p) \<in> set opts"
  then have "\<forall>n. isl (OptThresholdEstimate (Fin p) n)"
    by (simp add: OptThresholdEstimate_rejects)
  with a show "isl (NewNUNC W K opts)"
    using apply_opts_rejects [of "OptThresholdEstimate (Fin p)" opts 0]
    by (cases "New W") (simp_all add: NewNUNC_def)
next
  assume "0 < sint W"
  then show "\<not> isl (NewNUNC W K [])" "\<not> isl (NewNUNC W K [OptThreshold v])"
    by (simp_all add: NewNUNC_def New_def NewWindow_def OptThreshold_def)
qed

lemma construction_errors_example:
  "NewNUNC 0 3 [] = Inl ErrWindowCapacity
   \<and> NewThresholdEstimate (Fin 2) 1000 5 3 = Inl ErrProbability
   \<and> isl (NewNUNC 5 3 [OptThresholdEstimate (Fin 2)])
   \<and> \<not> isl (NewNUNC 5 (- 1) [])"
  using construction_errors [where W = 0 and K = 3 and opts = "[]" and p = 2 and D = 1000
      and z = "Fin 0" and v = "Fin 0"]
    construction_errors [where W = 5 and K = 3 and opts = "[OptThresholdEstimate (Fin 2)]"
      and p = 2 and D = 1000 and z = "Fin 0" and v = "Fin 0"]
    construction_errors [where W = 5 and K = "- 1" and opts = "[]" and p = 2 and D = 1000
      and z = "Fin 0" and v = "Fin 0"]
  by simp

text \<open>
  Claim C6 says that every configuration error, a quantile count \<open>\<le> 0\<close> among them, is
  raised at construction. No constructor looks at the quantile count: \<open>NewNUNC\<close> with
  capacity 1 and quantile count \<open>-1\<close> returns a detector, and the first observation pushed
  into it panics in \<open>make([]float64, quantileCount)\<close>. The comment of \<open>NewNUNC\<close> says
  that an error is returned if the configuration is in any way invalid.
\<close>

theorem quantile_count_not_validated:
  "NewNUNC 1 (- 1) []
     = Inr \<lparr>processor = \<lparr>window = \<lparr>data = [Fin 0], count = 0\<rparr>\<rparr>, threshold = None,
            windowSize = 1, quantileCount = - 1, changepoints = []\<rparr>
   \<and> NUNC_Push \<lparr>processor = \<lparr>window = \<lparr>data = [Fin 0], count = 0\<rparr>\<rparr>, threshold = None,
            windowSize = 1, quantileCount = - 1, changepoints = []\<rparr> (Fin 0)
     = Inl MakeSliceLen
   \<and> \<not> isl (NewNUNC 5 0 [OptThreshold (Fin 5)])
   \<and> \<not> isl (NewThresholdEstimate (Fin 1) 1000 5 0)"
proof -
  have "PushGetFull \<lparr>data = [Fin 0], count = 0\<rparr> (Fin 0)
          = Inr (\<lparr>data = [Fin 0], count = 1\<rparr>, 1, Some [Fin 0])"
    by (simp add: PushGetFull_def push_def marker_def get_def Full_def Len_def)
  then have "Process \<lparr>window = \<lparr>data = [Fin 0], count = 0\<rparr>\<rparr> (Fin 0) (- 1) = Inl MakeSliceLen"
    by (simp add: Process_def quantiles_def)
  then show ?thesis
    by (simp add: NUNC_Push_def NewNUNC_def New_def NewWindow_def OptThreshold_def
        NewThresholdEstimate_def fle_def fgt_def feq_def Let_def)
qed

section \<open>The running maximum of the scan\<close>

lemma flt_irrefl: "\<not> flt a a"
  by (cases a) simp_all

lemma flt_trans: "flt a b \<Longrightarrow> flt b c \<Longrightarrow> flt a c"
  by (cases a; cases b; cases c) simp_all

lemma flt_asym: "flt a b \<Longrightarrow> \<not> flt b a"
  by (cases a; cases b) simp_all

lemma flt_not_NaN: "flt a b \<Longrightarrow> a \<noteq> NaN \<and> b \<noteq> NaN"
  by (cases a; cases b) simp_all

lemma flt_total: "a \<noteq> NaN \<Longrightarrow> b \<noteq> NaN \<Longrightarrow> flt a b \<or> a = b \<or> flt b a"
  by (cases a; cases b) auto

lemma segment_loop_track:
  "segment_loop dataset q fullCDF fullCost cnt capacity is r m
     = track_max cnt capacity
         (zip is (map snd (segment_trace dataset q fullCDF fullCost is r))) m"
  by (induction "is" arbitrary: r m) (simp_all add: split_beta Let_def)

lemma track_max_result:
  assumes "costValue m \<noteq> NaN"
  shows "(track_max cnt capacity ps m = m \<and> (\<forall>p \<in> set ps. \<not> fgt (snd p) (costValue m)))
       \<or> (\<exists>j < length ps.
             track_max cnt capacity ps m
               = \<lparr>dataIndex = cnt - 1 - capacity + of_nat (fst (ps ! j)),
                  costValue = snd (ps ! j)\<rparr>
           \<and> fgt (snd (ps ! j)) (costValue m)
           \<and> (\<forall>k < length ps. \<not> fgt (snd (ps ! k)) (snd (ps ! j)))
           \<and> (\<forall>k < j. flt (snd (ps ! k)) (snd (ps ! j)) \<or> snd (ps ! k) = NaN))"
  using assms
proof (induction ps arbitrary: m)
  case Nil
  then show ?case by simp
next
  case (Cons p ps)
  obtain i cost where p: "p = (i, cost)" by (cases p)
  define m' where "m' = (if fgt cost (costValue m)
        then \<lparr>dataIndex = cnt - 1 - capacity + of_nat i, costValue = cost\<rparr> else m)"
  have step: "track_max cnt capacity (p # ps) m = track_max cnt capacity ps m'"
    by (simp add: p m'_def)
  have ok: "costValue m' \<noteq> NaN"
    using Cons.prems flt_not_NaN [of "costValue m" cost] by (auto simp: m'_def fgt_def)
  note IH = Cons.IH [OF ok]
  show ?case
  proof (cases "fgt cost (costValue m)")
    case True
    then have v: "costValue m' = cost"
      and m': "m' = \<lparr>dataIndex = cnt - 1 - capacity + of_nat i, costValue = cost\<rparr>"
      by (simp_all add: m'_def)
    from IH show ?thesis
    proof (elim disjE conjE exE)
      assume a: "track_max cnt capacity ps m' = m'"
        and b: "\<forall>p \<in> set ps. \<not> fgt (snd p) (costValue m')"
      have "\<forall>k < length (p # ps). \<not> fgt (snd ((p # ps) ! k)) cost"
        using b v flt_irrefl [of cost] by (auto simp: nth_Cons' p fgt_def)
      then show ?thesis
        using a True step m' by (intro disjI2 exI [of _ 0]) (simp add: p)
    next
      fix j
      assume j: "j < length ps"
        and r: "track_max cnt capacity ps m'
               = \<lparr>dataIndex = cnt - 1 - capacity + of_nat (fst (ps ! j)),
                  costValue = snd (ps ! j)\<rparr>"
        and g: "fgt (snd (ps ! j)) (costValue m')"
        and mx: "\<forall>k < length ps. \<not> fgt (snd (ps ! k)) (snd (ps ! j))"
        and fs: "\<forall>k < j. flt (snd (ps ! k)) (snd (ps ! j)) \<or> snd (ps ! k) = NaN"
      have lt: "flt cost (snd (ps ! j))" using g v by (simp add: fgt_def)
      have g': "fgt (snd (ps ! j)) (costValue m)"
        using True lt flt_trans by (auto simp: fgt_def)
      have mx': "\<forall>k < length (p # ps). \<not> fgt (snd ((p # ps) ! k)) (snd (ps ! j))"
        using mx lt flt_asym [OF lt] by (auto simp: nth_Cons' p fgt_def)
      have fs': "\<forall>k < Suc j. flt (snd ((p # ps) ! k)) (snd (ps ! j)) \<or> snd ((p # ps) ! k) = NaN"
        using fs lt by (auto simp: nth_Cons' p)
      show ?thesis
        using j r g' mx' fs' step by (intro disjI2 exI [of _ "Suc j"]) simp
    qed
  next
    case False
    then have m': "m' = m" by (simp add: m'_def)
    from IH show ?thesis
    proof (elim disjE conjE exE)
      assume a: "track_max cnt capacity ps m' = m'"
        and b: "\<forall>p \<in> set ps. \<not> fgt (snd p) (costValue m')"
      show ?thesis
        using a b False step m' by (intro disjI1) (simp add: p)
    next
      fix j
      assume j: "j < length ps"
        and r: "track_max cnt capacity ps m'
               = \<lparr>dataIndex = cnt - 1 - capacity + of_nat (fst (ps ! j)),
                  costValue = snd (ps ! j)\<rparr>"
        and g: "fgt (snd (ps ! j)) (costValue m')"
        and mx: "\<forall>k < length ps. \<not> fgt (snd (ps ! k)) (snd (ps ! j))"
        and fs: "\<forall>k < j. flt (snd (ps ! k)) (snd (ps ! j)) \<or> snd (ps ! k) = NaN"
      have g': "flt (costValue m) (snd (ps ! j))" using g m' by (simp add: fgt_def)
      have nogt: "\<not> flt (snd (ps ! j)) cost"
        using False g' flt_trans by (auto simp: fgt_def)
      have neq: "cost \<noteq> snd (ps ! j)"
        using False g' by (auto simp: fgt_def)
      have first: "flt cost (snd (ps ! j)) \<or> cost = NaN"
        using flt_total [of cost "snd (ps ! j)"] flt_not_NaN [OF g'] nogt neq by auto
      have mx': "\<forall>k < length (p # ps). \<not> fgt (snd ((p # ps) ! k)) (snd (ps ! j))"
        using mx nogt by (auto simp: nth_Cons' p fgt_def)
      have fs': "\<forall>k < Suc j. flt (snd ((p # ps) ! k)) (snd (ps ! j)) \<or> snd ((p # ps) ! k) = NaN"
        using fs first by (auto simp: nth_Cons' p)
      show ?thesis
        using j r g mx' fs' step m' by (intro disjI2 exI [of _ "Suc j"]) simp
    qed
  qed
qed

lemma length_segment_trace:
  "length (segment_trace dataset q fullCDF fullCost is r) = length is"
  by (induction "is" arbitrary: r) (simp_all add: split_beta Let_def)

lemma length_segment_costs:
  "length (segment_costs dataset q) = length (Float64s dataset)"
  by (simp add: segment_costs_def scan_trace_def Let_def length_segment_trace)

lemma track_max_from_zero:
  fixes cs :: "f64 list"
  defines "ps \<equiv> zip [0..<length cs] cs"
  defines "m0 \<equiv> \<lparr>dataIndex = 0, costValue = Fin 0\<rparr>"
  shows track_none: "(\<forall>i < length cs. \<not> fgt (cs ! i) (Fin 0)) \<Longrightarrow> track_max cnt capacity ps m0 = m0"
    and track_first: "first_max cs i \<Longrightarrow> track_max cnt capacity ps m0
          = \<lparr>dataIndex = cnt - 1 - capacity + of_nat i, costValue = cs ! i\<rparr>"
    and track_exists: "(\<exists>i < length cs. fgt (cs ! i) (Fin 0)) \<Longrightarrow> \<exists>i. first_max cs i"
proof -
  have len: "length ps = length cs" by (simp add: ps_def)
  have nth: "\<And>j. j < length cs \<Longrightarrow> ps ! j = (j, cs ! j)" by (simp add: ps_def)
  have v0: "costValue m0 = Fin 0" "costValue m0 \<noteq> NaN" by (simp_all add: m0_def)
  note R = track_max_result [OF v0(2), of cnt capacity ps]
  have none_iff: "(\<forall>p \<in> set ps. \<not> fgt (snd p) (costValue m0))
       = (\<forall>i < length cs. \<not> fgt (cs ! i) (Fin 0))"
    using len nth by (auto simp: all_set_conv_all_nth v0)
  have cand: "first_max cs j"
    if j: "j < length cs" and g: "fgt (cs ! j) (Fin 0)"
      and mx: "\<forall>k < length cs. \<not> fgt (cs ! k) (cs ! j)"
      and fs: "\<forall>k < j. flt (cs ! k) (cs ! j) \<or> cs ! k = NaN" for j
  proof -
    have "cs ! j \<noteq> NaN" using g flt_not_NaN by (auto simp: fgt_def)
    then have "\<forall>k < j. cs ! k \<noteq> cs ! j"
      using fs flt_irrefl by metis
    then show ?thesis using j g mx by (simp add: first_max_def)
  qed
  have second: "\<exists>j < length cs. track_max cnt capacity ps m0
               = \<lparr>dataIndex = cnt - 1 - capacity + of_nat j, costValue = cs ! j\<rparr>
             \<and> first_max cs j"
    if "\<exists>i < length cs. fgt (cs ! i) (Fin 0)"
  proof -
    from R that none_iff obtain j where j: "j < length ps"
      and r: "track_max cnt capacity ps m0
               = \<lparr>dataIndex = cnt - 1 - capacity + of_nat (fst (ps ! j)),
                  costValue = snd (ps ! j)\<rparr>"
      and g: "fgt (snd (ps ! j)) (costValue m0)"
      and mx: "\<forall>k < length ps. \<not> fgt (snd (ps ! k)) (snd (ps ! j))"
      and fs: "\<forall>k < j. flt (snd (ps ! k)) (snd (ps ! j)) \<or> snd (ps ! k) = NaN"
      by blast
    have j': "j < length cs" using j len by simp
    have "first_max cs j"
      using j' g mx fs len nth v0 by (intro cand) auto
    then show ?thesis using j' r nth by auto
  qed
  show "(\<forall>i < length cs. \<not> fgt (cs ! i) (Fin 0)) \<Longrightarrow> track_max cnt capacity ps m0 = m0"
    using R none_iff by auto
  show "(\<exists>i < length cs. fgt (cs ! i) (Fin 0)) \<Longrightarrow> \<exists>i. first_max cs i"
    using second by blast
  show "track_max cnt capacity ps m0
          = \<lparr>dataIndex = cnt - 1 - capacity + of_nat i, costValue = cs ! i\<rparr>"
    if fm: "first_max cs i"
  proof -
    have "\<exists>i < length cs. fgt (cs ! i) (Fin 0)" using fm by (auto simp: first_max_def)
    from second [OF this] obtain j where j: "j < length cs"
      and r: "track_max cnt capacity ps m0
               = \<lparr>dataIndex = cnt - 1 - capacity + of_nat j, costValue = cs ! j\<rparr>"
      and fj: "first_max cs j" by blast
    have i: "i < length cs" using fm by (simp add: first_max_def)
    have ni: "cs ! i \<noteq> NaN" "cs ! j \<noteq> NaN"
      using fm fj flt_not_NaN by (auto simp: first_max_def fgt_def)
    have "\<not> flt (cs ! i) (cs ! j)" "\<not> flt (cs ! j) (cs ! i)"
      using fm fj i j by (auto simp: first_max_def fgt_def)
    then have eq: "cs ! i = cs ! j" using flt_total [OF ni] by auto
    have "\<not> j < i" using fm eq by (auto simp: first_max_def)
    moreover have "\<not> i < j" using fj eq by (auto simp: first_max_def)
    ultimately have "i = j" by simp
    then show ?thesis using r by simp
  qed
qed

lemma PushGetFull_result:
  "PushGetFull w v = Inr (w', cnt, g) \<Longrightarrow> cnt = count w' \<and> g = GetFull w'"
  by (auto simp: PushGetFull_def GetFull_def split: sum.splits)

lemma Process_cost:
  assumes "Process proc v K = Inr (proc', Inr c)"
  shows "\<exists>dataset q. GetFull (window proc') = Some dataset
      \<and> quantiles (Float64s dataset) K = Inr q
      \<and> c = track_max (count (window proc')) (Cap (window proc'))
              (zip [0..<length (segment_costs dataset q)] (segment_costs dataset q))
              \<lparr>dataIndex = 0, costValue = Fin 0\<rparr>"
proof -
  from assms obtain w' cnt dataset where
    pg: "PushGetFull (window proc) v = Inr (w', cnt, Some dataset)"
    by (auto simp: Process_def split: sum.splits option.splits)
  from assms pg obtain q where q: "quantiles (Float64s dataset) K = Inr q"
    by (auto simp: Process_def Let_def split: sum.splits)
  from PushGetFull_result [OF pg] have cnt: "cnt = count w'" and g: "GetFull w' = Some dataset"
    by simp_all
  from assms pg q have p': "proc' = proc\<lparr>window := w'\<rparr>"
    and c: "c = segment_loop dataset q (map (ecdf (Float64s dataset)) q)
                (sumCost (map (ecdf (Float64s dataset)) q) (int (length dataset)))
                cnt (Cap w') [0..<length (Float64s dataset)]
                (map (ecdf (Float64s dataset)) q) \<lparr>dataIndex = 0, costValue = Fin 0\<rparr>"
    by (simp_all add: Process_def Let_def)
  have "c = track_max cnt (Cap w')
              (zip [0..<length (segment_costs dataset q)] (segment_costs dataset q))
              \<lparr>dataIndex = 0, costValue = Fin 0\<rparr>"
    unfolding c segment_loop_track
    by (simp add: segment_costs_def scan_trace_def Let_def length_segment_trace)
  then show ?thesis using g q p' cnt by auto
qed

text \<open>
  Claim C5: in every evaluation of a full window the maximum is tracked with a strict
  \<open>>\<close> from a floor of 0. With \<open>segment_costs\<close> the costs of the split positions of the
  window: if no cost exceeds 0, the returned \<open>Cost\<close> keeps the value 0 and the zero index;
  otherwise the returned \<open>Cost\<close> is the first position that attains the maximum, with
  that cost, and when some cost exceeds 0 there is such a position.
\<close>

theorem Process_reports_first_maximum:
  assumes "Process proc v K = Inr (proc', Inr c)"
  shows "\<exists>dataset q. GetFull (window proc') = Some dataset
      \<and> quantiles (Float64s dataset) K = Inr q
      \<and> ((\<forall>i < length (segment_costs dataset q). \<not> fgt (segment_costs dataset q ! i) (Fin 0))
           \<longrightarrow> c = \<lparr>dataIndex = 0, costValue = Fin 0\<rparr>)
      \<and> (\<forall>i. first_max (segment_costs dataset q) i
           \<longrightarrow> c = \<lparr>dataIndex = Count (window proc') - 1 - Cap (window proc') + of_nat i,
                     costValue = segment_costs dataset q ! i\<rparr>)
      \<and> ((\<exists>i < length (segment_costs dataset q). fgt (segment_costs dataset q ! i) (Fin 0))
           \<longrightarrow> (\<exists>i. first_max (segment_costs dataset q) i))"
proof -
  from Process_cost [OF assms] obtain dataset q where
    g: "GetFull (window proc') = Some dataset"
    and q: "quantiles (Float64s dataset) K = Inr q"
    and c: "c = track_max (count (window proc')) (Cap (window proc'))
              (zip [0..<length (segment_costs dataset q)] (segment_costs dataset q))
              \<lparr>dataIndex = 0, costValue = Fin 0\<rparr>"
    by blast
  show ?thesis
    using g q track_none [of "segment_costs dataset q"] track_first [of "segment_costs dataset q"]
      track_exists [of "segment_costs dataset q"]
    unfolding c Count_def
    by (intro exI [of _ dataset] exI [of _ q]) blast
qed

section \<open>A window of three observations, evaluated\<close>

text \<open>The window \<open>[0, 0, 1]\<close> with one quantile: the quantile value is 0, the full-window
  CDF estimate is \<open>1/3\<close>, and the costs of the three split positions are a finite value,
  a larger positive value, and \<open>NaN\<close>.\<close>

lemma E1: "PushGetFull \<lparr>data = [Fin 0, Fin 0, Fin 0], count = 2\<rparr> (Fin 1)
   = Inr (\<lparr>data = [Fin 0, Fin 0, Fin 1], count = 3\<rparr>, 3, Some [Fin 0, Fin 0, Fin 1])"
  by (simp add: PushGetFull_def push_def marker_def get_def Full_def Len_def)

lemma E2: "Float64s [Fin 0, Fin 0, Fin 1] = [Fin 0, Fin 0, Fin 1]"
  by (simp add: Float64s_def less_f64_def)

lemma pct3: "quantile_pct (Suc (Suc (Suc 0))) 1 0 = Fin (1 / 21)"
  by (simp add: quantile_pct_def float64_def fsub_def)

lemma quantile3: "quantile [Fin 0, Fin 0, Fin 1] (Fin (1 / 21)) = Inr (Fin 0)"
  by (simp add: quantile_def at_float_def float64_def feq_def Let_def)

lemma E3: "quantiles [Fin 0, Fin 0, Fin 1] 1 = Inr [Fin 0]"
  by (simp add: quantiles_def pct3 quantile3)

lemma E4: "ecdf [Fin 0, Fin 0, Fin 1] (Fin 0) = Fin (1 / 3)"
  by (simp add: ecdf_def bisect_def bisectLeft_def bisectRight_def Search_3
      fge_def fgt_def fle_def feq_def go_quot_def float64_def)


lemma windowUpdate_single:
  "windowUpdate x len [qv] [c]
     = [fdiv (fsub (fmul c (float64 len)) (empDist x qv)) (float64 (len - 1))]"
  by (simp add: windowUpdate_def)

lemma S0: "segment_cost [Fin 0, Fin 0, Fin 1] [Fin 0] [Fin (1 / 3)] (Fin fc) 0 [Fin (1 / 3)]
   = ([Fin (1 / 4)], Fin (2 * (2 * (1 / 4 * ln (1 / 4) - 3 / 4 * ln (3 / 4)) - fc)))"
  by (simp add: segment_cost_def windowUpdate_single empDist_def fgt_def float64_def fsub_def
      sumCost_def cdfCost_inside Let_def)

lemma S1: "segment_cost [Fin 0, Fin 0, Fin 1] [Fin 0] [Fin (1 / 3)] (Fin fc) 1 [Fin (1 / 4)]
   = ([Fin 0], Fin (2 * (0 - fc)))"
  by (simp add: segment_cost_def windowUpdate_single empDist_def fgt_def float64_def fsub_def
      sumCost_def cdfCost_inside cdfCost_outside Let_def)

lemma S2: "segment_cost [Fin 0, Fin 0, Fin 1] [Fin 0] [Fin (1 / 3)] (Fin fc) (Suc (Suc 0)) [Fin 0]
   = ([NaN], NaN)"
  by (simp add: segment_cost_def windowUpdate_single empDist_def fgt_def float64_def fsub_def
      sumCost_def cdfCost_def fle_def fge_def feq_def Let_def)


lemma fullCost_example:
  "sumCost [Fin (1 / 3)] 3 = Fin (3 * (1 / 3 * ln (1 / 3) - 2 / 3 * ln (2 / 3)))"
  by (simp add: sumCost_def cdfCost_inside)

lemma ln_quarter_less: "ln (1 / 4 :: real) < 3 * ln (3 / 4)"
proof -
  have "ln (1 / 4 :: real) < ln (27 / 64)"
    by (subst ln_less_cancel_iff) simp_all
  moreover have "ln (27 / 64 :: real) = 3 * ln (3 / 4)"
    using ln_realpow [of "3 / 4 :: real" 3] by (simp add: power3_eq_cube)
  ultimately show ?thesis by simp
qed

lemma ln_third_less: "ln (1 / 3 :: real) < 2 * ln (2 / 3)"
proof -
  have "ln (1 / 3 :: real) < ln (4 / 9)"
    by (subst ln_less_cancel_iff) simp_all
  moreover have "ln (4 / 9 :: real) = 2 * ln (2 / 3)"
    using ln_realpow [of "2 / 3 :: real" 2] by (simp add: power2_eq_square)
  ultimately show ?thesis by simp
qed

lemma costs_example:
  "\<exists>c0 c1. segment_costs [Fin 0, Fin 0, Fin 1] [Fin 0] = [Fin c0, Fin c1, NaN]
      \<and> 0 < c1 \<and> c0 < c1"
proof -
  define fc :: real where "fc = 3 * (1 / 3 * ln (1 / 3) - 2 / 3 * ln (2 / 3))"
  define c0 :: real where "c0 = 2 * (2 * (1 / 4 * ln (1 / 4) - 3 / 4 * ln (3 / 4)) - fc)"
  define c1 :: real where "c1 = 2 * (0 - fc)"
  have "segment_costs [Fin 0, Fin 0, Fin 1] [Fin 0] = [Fin c0, Fin c1, NaN]"
    unfolding segment_costs_def scan_trace_def
    by (simp add: E2 E4 fullCost_example upt_rec [of 0] upt_rec [of 1] upt_rec [of 2]
        numeral_3_eq_3 S0 [simplified] S1 [simplified] S2 [simplified] c0_def c1_def fc_def)
  moreover have "fc < 0"
    using ln_third_less by (simp add: fc_def)
  then have "0 < c1" by (simp add: c1_def)
  moreover have "c0 < c1"
    using ln_quarter_less by (simp add: c0_def c1_def)
  ultimately show ?thesis by blast
qed


lemma first_max_example: "0 < c1 \<Longrightarrow> c0 < c1 \<Longrightarrow> first_max [Fin c0, Fin c1, NaN] 1"
  by (auto simp: first_max_def fgt_def less_Suc_eq)

lemma Process_eval:
  assumes "PushGetFull (window proc) v = Inr (w', cnt, Some dataset)"
    and "quantiles (Float64s dataset) K = Inr q"
  shows "Process proc v K
     = Inr (proc\<lparr>window := w'\<rparr>,
            Inr (track_max cnt (Cap w')
                   (zip [0..<length (segment_costs dataset q)] (segment_costs dataset q))
                   \<lparr>dataIndex = 0, costValue = Fin 0\<rparr>))"
  using assms
  by (simp add: Process_def segment_loop_track segment_costs_def scan_trace_def
      length_segment_trace Let_def)

lemma Process_example:
  "\<exists>c1. 0 < c1
     \<and> Process \<lparr>window = \<lparr>data = [Fin 0, Fin 0, Fin 0], count = 2\<rparr>\<rparr> (Fin 1) 1
         = Inr (\<lparr>window = \<lparr>data = [Fin 0, Fin 0, Fin 1], count = 3\<rparr>\<rparr>,
                Inr \<lparr>dataIndex = 0, costValue = Fin c1\<rparr>)"
proof -
  from costs_example obtain c0 c1 where
    cs: "segment_costs [Fin 0, Fin 0, Fin 1] [Fin 0] = [Fin c0, Fin c1, NaN]"
    and pos: "0 < c1" and lt: "c0 < c1" by blast
  have q: "quantiles (Float64s [Fin 0, Fin 0, Fin 1]) 1 = Inr [Fin 0]"
    by (simp only: E2 E3)
  have pg: "PushGetFull (window \<lparr>window = \<lparr>data = [Fin 0, Fin 0, Fin 0], count = 2\<rparr>\<rparr>) (Fin 1)
     = Inr (\<lparr>data = [Fin 0, Fin 0, Fin 1], count = 3\<rparr>, 3, Some [Fin 0, Fin 0, Fin 1])"
    using E1 by simp
  have tr: "track_max 3 3
                    (zip [0..<length (segment_costs [Fin 0, Fin 0, Fin 1] [Fin 0])]
                         (segment_costs [Fin 0, Fin 0, Fin 1] [Fin 0]))
                    \<lparr>dataIndex = 0, costValue = Fin 0\<rparr>
      = \<lparr>dataIndex = 0, costValue = Fin c1\<rparr>"
    using track_first [of "segment_costs [Fin 0, Fin 0, Fin 1] [Fin 0]" 1 3 3]
      first_max_example [OF pos lt]
    by (simp add: cs)
  have "Process \<lparr>window = \<lparr>data = [Fin 0, Fin 0, Fin 0], count = 2\<rparr>\<rparr> (Fin 1) 1
         = Inr (\<lparr>window = \<lparr>data = [Fin 0, Fin 0, Fin 1], count = 3\<rparr>\<rparr>,
                Inr \<lparr>dataIndex = 0, costValue = Fin c1\<rparr>)"
    unfolding Process_eval [OF pg q] tr [unfolded cs] cs
    by (simp add: Cap_def tr [unfolded cs, simplified])
  then show ?thesis using pos by blast
qed


text \<open>The next window, \<open>[0, 1, 1]\<close>: the quantile value is \<open>2/21\<close> and the first two split
  positions have the same positive cost.\<close>

lemma F1: "PushGetFull \<lparr>data = [Fin 0, Fin 0, Fin 1], count = 3\<rparr> (Fin 1)
   = Inr (\<lparr>data = [Fin 1, Fin 0, Fin 1], count = 4\<rparr>, 4, Some [Fin 0, Fin 1, Fin 1])"
  by (simp add: PushGetFull_def push_def marker_def get_def Full_def Len_def)

lemma F2: "Float64s [Fin 0, Fin 1, Fin 1] = [Fin 0, Fin 1, Fin 1]"
  by (simp add: Float64s_def less_f64_def)

lemma quantile3': "quantile [Fin 0, Fin 1, Fin 1] (Fin (1 / 21)) = Inr (Fin (2 / 21))"
  by (simp add: quantile_def at_float_def float64_def feq_def fsub_def Let_def)

lemma F3: "quantiles [Fin 0, Fin 1, Fin 1] 1 = Inr [Fin (2 / 21)]"
  by (simp add: quantiles_def pct3 quantile3')

lemma F4: "ecdf [Fin 0, Fin 1, Fin 1] (Fin (2 / 21)) = Fin (1 / 3)"
  by (simp add: ecdf_def bisect_def bisectLeft_def bisectRight_def Search_3
      fge_def fgt_def fle_def feq_def go_quot_def float64_def)

lemma T0: "segment_cost [Fin 0, Fin 1, Fin 1] [Fin (2 / 21)] [Fin (1 / 3)] (Fin fc) 0 [Fin (1 / 3)]
   = ([Fin 0], Fin (2 * (0 - fc)))"
  by (simp add: segment_cost_def windowUpdate_single empDist_def fgt_def float64_def fsub_def
      sumCost_def cdfCost_inside cdfCost_outside Let_def)

lemma T1: "segment_cost [Fin 0, Fin 1, Fin 1] [Fin (2 / 21)] [Fin (1 / 3)] (Fin fc) 1 [Fin 0]
   = ([Fin 0], Fin (2 * (0 - fc)))"
  by (simp add: segment_cost_def windowUpdate_single empDist_def fgt_def float64_def fsub_def
      sumCost_def cdfCost_inside cdfCost_outside Let_def)

lemma T2: "segment_cost [Fin 0, Fin 1, Fin 1] [Fin (2 / 21)] [Fin (1 / 3)] (Fin fc) (Suc (Suc 0)) [Fin 0]
   = ([NaN], NaN)"
  by (simp add: segment_cost_def windowUpdate_single empDist_def fgt_def float64_def fsub_def
      sumCost_def cdfCost_def fle_def fge_def feq_def Let_def)

lemma costs_tie_example:
  "\<exists>c. segment_costs [Fin 0, Fin 1, Fin 1] [Fin (2 / 21)] = [Fin c, Fin c, NaN] \<and> 0 < c"
proof -
  define fc :: real where "fc = 3 * (1 / 3 * ln (1 / 3) - 2 / 3 * ln (2 / 3))"
  define c :: real where "c = 2 * (0 - fc)"
  have "segment_costs [Fin 0, Fin 1, Fin 1] [Fin (2 / 21)] = [Fin c, Fin c, NaN]"
    unfolding segment_costs_def scan_trace_def
    by (simp add: F2 F4 fullCost_example upt_rec [of 0] upt_rec [of 1] upt_rec [of 2]
        numeral_3_eq_3 T0 [simplified] T1 [simplified] T2 [simplified] c_def fc_def)
  moreover have "fc < 0"
    using ln_third_less by (simp add: fc_def)
  then have "0 < c" by (simp add: c_def)
  ultimately show ?thesis by blast
qed

lemma first_max_tie_example: "0 < c \<Longrightarrow> first_max [Fin c, Fin c, NaN] 0"
  by (auto simp: first_max_def fgt_def less_Suc_eq)

lemma Process_tie_example:
  "\<exists>c. 0 < c
     \<and> segment_costs [Fin 0, Fin 1, Fin 1] [Fin (2 / 21)] = [Fin c, Fin c, NaN]
     \<and> Process \<lparr>window = \<lparr>data = [Fin 0, Fin 0, Fin 1], count = 3\<rparr>\<rparr> (Fin 1) 1
         = Inr (\<lparr>window = \<lparr>data = [Fin 1, Fin 0, Fin 1], count = 4\<rparr>\<rparr>,
                Inr \<lparr>dataIndex = 0, costValue = Fin c\<rparr>)"
proof -
  from costs_tie_example obtain c where
    cs: "segment_costs [Fin 0, Fin 1, Fin 1] [Fin (2 / 21)] = [Fin c, Fin c, NaN]"
    and pos: "0 < c" by blast
  have q: "quantiles (Float64s [Fin 0, Fin 1, Fin 1]) 1 = Inr [Fin (2 / 21)]"
    by (simp only: F2 F3)
  have pg: "PushGetFull (window \<lparr>window = \<lparr>data = [Fin 0, Fin 0, Fin 1], count = 3\<rparr>\<rparr>) (Fin 1)
     = Inr (\<lparr>data = [Fin 1, Fin 0, Fin 1], count = 4\<rparr>, 4, Some [Fin 0, Fin 1, Fin 1])"
    using F1 by simp
  have tr: "track_max 4 3
                    (zip [0..<length (segment_costs [Fin 0, Fin 1, Fin 1] [Fin (2 / 21)])]
                         (segment_costs [Fin 0, Fin 1, Fin 1] [Fin (2 / 21)]))
                    \<lparr>dataIndex = 0, costValue = Fin 0\<rparr>
      = \<lparr>dataIndex = 0, costValue = Fin c\<rparr>"
    using track_first [of "segment_costs [Fin 0, Fin 1, Fin 1] [Fin (2 / 21)]" 0 4 3]
      first_max_tie_example [OF pos]
    by (simp add: cs)
  have "Process \<lparr>window = \<lparr>data = [Fin 0, Fin 0, Fin 1], count = 3\<rparr>\<rparr> (Fin 1) 1
         = Inr (\<lparr>window = \<lparr>data = [Fin 1, Fin 0, Fin 1], count = 4\<rparr>\<rparr>,
                Inr \<lparr>dataIndex = 0, costValue = Fin c\<rparr>)"
    unfolding Process_eval [OF pg q] tr [unfolded cs] cs
    by (simp add: Cap_def tr [unfolded cs, simplified])
  then show ?thesis using pos cs by blast
qed

section \<open>Properties of the detector\<close>

lemma apply_opts_changepoints:
  assumes "apply_opts idx opts n = Inr n'"
    and "\<forall>opt \<in> set opts. (\<exists>v. opt = OptThreshold v) \<or> (\<exists>p. opt = OptThresholdEstimate p)"
  shows "changepoints n' = changepoints n"
  using assms
proof (induction opts arbitrary: idx n)
  case Nil
  then show ?case by simp
next
  case (Cons opt opts)
  from Cons.prems(1) obtain n1 where o: "opt n = Inr n1"
    and rest: "apply_opts (idx + 1) opts n1 = Inr n'"
    by (auto split: sum.splits)
  have "changepoints n1 = changepoints n"
    using Cons.prems(2) o
    by (auto simp: OptThreshold_def OptThresholdEstimate_def split: sum.splits)
  moreover have "changepoints n' = changepoints n1"
    using Cons.IH [OF rest] Cons.prems(2) by simp
  ultimately show ?case by simp
qed

lemma NewNUNC_changepoints:
  assumes "NewNUNC W K opts = Inr n"
    and "\<forall>opt \<in> set opts. (\<exists>v. opt = OptThreshold v) \<or> (\<exists>p. opt = OptThresholdEstimate p)"
  shows "changepoints n = []"
proof -
  from assms(1) obtain p where "apply_opts 0 opts
            \<lparr>processor = p, threshold = None, windowSize = W,
             quantileCount = K, changepoints = []\<rparr> = Inr n"
    by (auto simp: NewNUNC_def split: sum.splits)
  from apply_opts_changepoints [OF this assms(2)] show ?thesis by simp
qed

lemma NUNC_Push_cases:
  assumes "NUNC_Push n x = Inr (n', r)"
  shows "(changepoints n' = changepoints n \<and> r = 0)
       \<or> (r \<notin> set (changepoints n) \<and> changepoints n' = changepoints n @ [r])"
  using assms
  by (auto simp: NUNC_Push_def Let_def split: sum.splits option.splits if_splits)

lemma NUNC_PushAll_appends:
  assumes "NUNC_PushAll n xs = Inr (n', rs)" "distinct (changepoints n)"
  shows "\<exists>new. changepoints n' = changepoints n @ new \<and> distinct (changepoints n')
            \<and> filter (\<lambda>r. r \<noteq> 0) rs = filter (\<lambda>r. r \<noteq> 0) new"
  using assms
proof (induction xs arbitrary: n rs)
  case Nil
  then show ?case by simp
next
  case (Cons x xs)
  from Cons.prems(1) obtain n1 r rs' where
    p: "NUNC_Push n x = Inr (n1, r)" and rest: "NUNC_PushAll n1 xs = Inr (n', rs')"
    and rs: "rs = r # rs'"
    by (auto split: sum.splits prod.splits)
  from NUNC_Push_cases [OF p] show ?case
  proof (elim disjE conjE)
    assume same: "changepoints n1 = changepoints n" and r0: "r = 0"
    then have "distinct (changepoints n1)" using Cons.prems(2) by simp
    from Cons.IH [OF rest this] show ?thesis
      using same r0 rs by auto
  next
    assume new: "r \<notin> set (changepoints n)" and app: "changepoints n1 = changepoints n @ [r]"
    then have "distinct (changepoints n1)" using Cons.prems(2) by simp
    from Cons.IH [OF rest this] obtain new' where
      a: "changepoints n' = changepoints n1 @ new'" and d: "distinct (changepoints n')"
      and f: "filter (\<lambda>r. r \<noteq> 0) rs' = filter (\<lambda>r. r \<noteq> 0) new'" by blast
    show ?thesis
      using a d f app rs by (intro exI [of _ "r # new'"]) simp
  qed
qed

text \<open>
  Claim C7: over every sequence of observations pushed into a detector whose list of
  changepoints has no duplicates (it is empty after \<open>NewNUNC\<close>), the list never gets a
  duplicate, the values other than 0 that \<open>Push\<close> returns are pairwise different, and
  each of them was appended to the list by that call, not being in it before.
\<close>

theorem Push_never_reports_twice:
  assumes "distinct (changepoints n)" and "NUNC_PushAll n xs = Inr (n', rs)"
  shows "distinct (changepoints n')
       \<and> distinct (filter (\<lambda>r. r \<noteq> 0) rs)
       \<and> (\<forall>r \<in> set rs. r \<noteq> 0 \<longrightarrow> r \<in> set (changepoints n') \<and> r \<notin> set (changepoints n))"
proof -
  from NUNC_PushAll_appends [OF assms(2) assms(1)] obtain new where
    a: "changepoints n' = changepoints n @ new" and d: "distinct (changepoints n')"
    and f: "filter (\<lambda>r. r \<noteq> 0) rs = filter (\<lambda>r. r \<noteq> 0) new" by blast
  have dn: "distinct new" and disj: "set (changepoints n) \<inter> set new = {}"
    using a d by auto
  have "distinct (filter (\<lambda>r. r \<noteq> 0) rs)"
    using f dn by simp
  moreover have "r \<in> set new" if "r \<in> set rs" "r \<noteq> 0" for r
  proof -
    have "r \<in> set (filter (\<lambda>r. r \<noteq> 0) rs)" using that by simp
    then have "r \<in> set (filter (\<lambda>r. r \<noteq> 0) new)" using f by simp
    then show ?thesis by simp
  qed
  ultimately show ?thesis using d a disj by auto
qed

text \<open>
  Claim C10: when no changepoint is found (\<open>Process\<close> returns an error such as the window
  not being full, no threshold is set, the threshold does not classify the cost, or the
  index is already in the list) \<open>Push\<close> returns 0 and leaves the list alone; when the cost
  is classified and its index is 0 and new, \<open>Push\<close> appends 0 to the list and returns 0
  as well, so the two cannot be told apart by the value returned.
\<close>

theorem Push_zero_is_ambiguous:
  assumes "Process (processor n) x (quantileCount n) = Inr (proc', res)"
  shows "((\<exists>e. res = Inl e) \<or> threshold n = None
          \<or> (\<exists>c t. res = Inr c \<and> threshold n = Some t
                \<and> (\<not> Changepoint t (costValue c) \<or> dataIndex c \<in> set (changepoints n)))
          \<longrightarrow> NUNC_Push n x = Inr (n\<lparr>processor := proc'\<rparr>, 0))
       \<and> (\<forall>c t. res = Inr c \<and> threshold n = Some t \<and> Changepoint t (costValue c)
                \<and> dataIndex c = 0 \<and> 0 \<notin> set (changepoints n)
          \<longrightarrow> NUNC_Push n x
                = Inr (n\<lparr>processor := proc', changepoints := changepoints n @ [0]\<rparr>, 0))"
  using assms
  by (auto simp: NUNC_Push_def Let_def split: sum.splits option.splits)

section \<open>The division in the scan\<close>

lemma fold_update_nth:
  assumes "n \<le> length c"
  shows "length (fold (\<lambda>i c. c[i := g i (c ! i)]) [0..<n] c) = length c
       \<and> (\<forall>j < length c. fold (\<lambda>i c. c[i := g i (c ! i)]) [0..<n] c ! j
              = (if j < n then g j (c ! j) else c ! j))"
  using assms
proof (induction n)
  case 0
  then show ?case by simp
next
  case (Suc n)
  then have IH: "length (fold (\<lambda>i c. c[i := g i (c ! i)]) [0..<n] c) = length c"
    "\<forall>j < length c. fold (\<lambda>i c. c[i := g i (c ! i)]) [0..<n] c ! j
              = (if j < n then g j (c ! j) else c ! j)"
    by simp_all
  have n: "n < length c" using Suc.prems by simp
  show ?case
    using IH n by (auto simp: nth_list_update less_Suc_eq)
qed

lemma windowUpdate_length:
  "length cdf = length qs \<Longrightarrow> length (windowUpdate x len qs cdf) = length qs"
  using fold_update_nth
    [of "length qs" cdf "\<lambda>i c. fdiv (fsub (fmul c (float64 len)) (empDist x (qs ! i))) (float64 (len - 1))"]
  by (simp add: windowUpdate_def)

lemma windowUpdate_nth:
  assumes "length cdf = length qs" "j < length qs"
  shows "windowUpdate x len qs cdf ! j
       = fdiv (fsub (fmul (cdf ! j) (float64 len)) (empDist x (qs ! j))) (float64 (len - 1))"
  using fold_update_nth
    [of "length qs" cdf "\<lambda>i c. fdiv (fsub (fmul c (float64 len)) (empDist x (qs ! i))) (float64 (len - 1))"]
    assms
  by (simp add: windowUpdate_def)

lemma empDist_values:
  "empDist x qv = Fin 1 \<or> empDist x qv = Fin 0 \<or> empDist x qv = Fin (1 / 2)"
  by (simp add: empDist_def)

lemma empDist_finite: "\<exists>e. empDist x qv = Fin e"
  using empDist_values [of x qv] by blast

lemma update_finite:
  assumes "finite_f64 c" "len \<noteq> 1"
  shows "finite_f64 (fdiv (fsub (fmul c (float64 len)) (empDist x qv)) (float64 (len - 1)))"
proof -
  obtain e where e: "empDist x qv = Fin e" using empDist_finite by blast
  obtain r where r: "c = Fin r" using assms(1) by (cases c) (simp_all add: finite_f64_def)
  show ?thesis using assms(2) by (simp add: e r float64_def fsub_def finite_f64_def)
qed

lemma update_terminal:
  "\<not> finite_f64 (fdiv (fsub (fmul c (float64 1)) (empDist x qv)) (float64 (1 - 1)))"
proof -
  obtain e where e: "empDist x qv = Fin e" using empDist_finite by blast
  show ?thesis
    by (cases c) (simp_all add: e float64_def fsub_def finite_f64_def inf_signed_def)
qed

lemma windowUpdate_finite:
  assumes "length cdf = length qs" "\<forall>c \<in> set cdf. finite_f64 c" "len \<noteq> 1"
  shows "\<forall>c \<in> set (windowUpdate x len qs cdf). finite_f64 c"
  using assms windowUpdate_length [OF assms(1), of x len]
  by (auto simp: all_set_conv_all_nth windowUpdate_nth update_finite)

lemma windowUpdate_terminal:
  assumes "length cdf = length qs"
  shows "\<forall>c \<in> set (windowUpdate x 1 qs cdf). \<not> finite_f64 c"
  using assms windowUpdate_length [OF assms(1), of x 1] update_terminal
  by (auto simp: all_set_conv_all_nth windowUpdate_nth)

lemma cdfCost_NaN: "cdfCost NaN n = NaN"
  by (simp add: cdfCost_def fle_def fge_def feq_def fsub_def float64_def)

lemma foldl_NaN: "foldl (\<lambda>s c. fadd s (cdfCost c n)) NaN cs = NaN"
  by (induction cs) simp_all

lemma fadd_NaN_right: "fadd s NaN = NaN"
  by (cases s) simp_all

lemma sumCost_NaN: "cs \<noteq> [] \<Longrightarrow> hd cs = NaN \<Longrightarrow> sumCost cs n = NaN"
  by (cases cs) (simp_all add: sumCost_def cdfCost_NaN foldl_NaN)

lemma fmul_zero_not_finite: "\<not> finite_f64 r \<Longrightarrow> fmul r (Fin 0) = NaN"
  by (cases r) (simp_all add: finite_f64_def)


lemma segment_cost_fst:
  "fst (segment_cost dataset q F fc i r)
     = windowUpdate (dataset ! i) (int (length dataset) - int i) q r"
  by (simp add: segment_cost_def Let_def)

lemma fsub_NaN_left: "fsub NaN x = NaN"
  by (simp add: fsub_def)

lemma leftCost_NaN:
  assumes "q \<noteq> []" "\<not> finite_f64 (r' ! 0)"
  shows "sumCost (map (\<lambda>j. fdiv (fsub (fmul (F ! j) a) (fmul (r' ! j) (float64 0))) b)
                      [0..<length q]) m = NaN"
proof (rule sumCost_NaN)
  show "map (\<lambda>j. fdiv (fsub (fmul (F ! j) a) (fmul (r' ! j) (float64 0))) b) [0..<length q] \<noteq> []"
    using assms(1) by simp
  show "hd (map (\<lambda>j. fdiv (fsub (fmul (F ! j) a) (fmul (r' ! j) (float64 0))) b) [0..<length q])
          = NaN"
    using assms(1) fmul_zero_not_finite [OF assms(2)]
    by (simp add: hd_map upt_conv_Cons float64_def fsub_def fadd_NaN_right)
qed

lemma segment_cost_terminal:
  assumes "Suc i = length dataset" "length r = length q" "q \<noteq> []"
  shows "snd (segment_cost dataset q F fc i r) = NaN"
proof -
  have len: "int (length dataset) - int i = 1" using assms(1) by simp
  have nf: "\<not> finite_f64 (windowUpdate (dataset ! i) 1 q r ! 0)"
    using windowUpdate_terminal [OF assms(2), of "dataset ! i"]
      windowUpdate_length [OF assms(2), of "dataset ! i" 1] assms(3)
    by (simp add: all_set_conv_all_nth)
  show ?thesis
    by (simp add: segment_cost_def Let_def len leftCost_NaN [OF assms(3) nf] fsub_NaN_left)
qed

lemma segment_trace_steps:
  assumes "length r = length q" "\<forall>c \<in> set r. finite_f64 c" "k < length dataset"
  shows "(\<forall>p. k + p + 1 < length dataset
           \<longrightarrow> (\<forall>c \<in> set (fst (segment_trace dataset q F fc [k..<length dataset] r ! p)).
                  finite_f64 c))
       \<and> (\<forall>c \<in> set (fst (last (segment_trace dataset q F fc [k..<length dataset] r))).
             \<not> finite_f64 c)
       \<and> (q \<noteq> [] \<longrightarrow> snd (last (segment_trace dataset q F fc [k..<length dataset] r)) = NaN)"
  using assms
proof (induction "length dataset - k" arbitrary: k r)
  case 0
  then show ?case by simp
next
  case (Suc d)
  define r' where "r' = fst (segment_cost dataset q F fc k r)"
  define c where "c = snd (segment_cost dataset q F fc k r)"
  have unfold: "segment_trace dataset q F fc [k..<length dataset] r
      = (r', c) # segment_trace dataset q F fc [Suc k..<length dataset] r'"
    using Suc.prems(3) by (simp add: upt_conv_Cons split_beta Let_def r'_def c_def)
  have r'w: "r' = windowUpdate (dataset ! k) (int (length dataset) - int k) q r"
    by (simp add: r'_def segment_cost_fst)
  have lr': "length r' = length q"
    using windowUpdate_length [OF Suc.prems(1)] by (simp add: r'w)
  show ?case
  proof (cases "Suc k = length dataset")
    case True
    then have e: "segment_trace dataset q F fc [Suc k..<length dataset] r' = []" by simp
    have one: "int (length dataset) - int k = 1" using True by simp
    have "\<forall>c \<in> set r'. \<not> finite_f64 c"
      using windowUpdate_terminal [OF Suc.prems(1)] by (simp add: r'w one)
    moreover have "q \<noteq> [] \<longrightarrow> c = NaN"
      using segment_cost_terminal [OF True Suc.prems(1)] by (simp add: c_def)
    ultimately show ?thesis using True by (simp add: unfold e)
  next
    case False
    then have lt: "Suc k < length dataset" using Suc.prems(3) by simp
    have ne: "int (length dataset) - int k \<noteq> 1" using lt by simp
    have fin: "\<forall>c \<in> set r'. finite_f64 c"
      using windowUpdate_finite [OF Suc.prems(1) Suc.prems(2) ne] by (simp add: r'w)
    have d: "d = length dataset - Suc k" using Suc.hyps(2) by simp
    note IH = Suc.hyps(1) [OF d lr' fin lt]
    have nonempty: "segment_trace dataset q F fc [Suc k..<length dataset] r' \<noteq> []"
      using lt by (simp add: upt_conv_Cons split_beta Let_def)
    have first: "\<forall>p. k + p + 1 < length dataset
           \<longrightarrow> (\<forall>c \<in> set (fst (((r', c) # segment_trace dataset q F fc [Suc k..<length dataset] r') ! p)).
                  finite_f64 c)"
    proof (intro allI impI)
      fix p assume p: "k + p + 1 < length dataset"
      show "\<forall>c \<in> set (fst (((r', c) # segment_trace dataset q F fc [Suc k..<length dataset] r') ! p)).
                  finite_f64 c"
      proof (cases p)
        case 0
        then show ?thesis using fin by simp
      next
        case (Suc p')
        then have "Suc k + p' + 1 < length dataset" using p by simp
        then show ?thesis using IH Suc by simp
      qed
    qed
    show ?thesis
      using first IH nonempty by (simp add: unfold)
  qed
qed


lemma length_insert_f64: "length (insert_f64 x xs) = Suc (length xs)"
  by (induction xs) simp_all

lemma length_Float64s: "length (Float64s xs) = length xs"
  by (induction xs) (simp_all add: Float64s_def length_insert_f64)

lemma ecdf_finite: "xs \<noteq> [] \<Longrightarrow> finite_f64 (ecdf xs v)"
  by (simp add: ecdf_def Let_def float64_def finite_f64_def)

lemma scan_trace_unfold:
  "scan_trace dataset q
     = segment_trace dataset q (map (ecdf (Float64s dataset)) q)
         (sumCost (map (ecdf (Float64s dataset)) q) (int (length dataset)))
         [0..<length dataset] (map (ecdf (Float64s dataset)) q)"
  by (simp add: scan_trace_def Let_def length_Float64s)

text \<open>
  Claim C4, as the program has it: the update of the right-segment CDF divides by
  \<open>float64(length - 1)\<close> with no guard. In the scan of a full window that divisor is zero
  at the last step and only there; before the last step every updated estimate is
  finite; at the last step every updated estimate is an infinity or \<open>NaN\<close>, and with at
  least one quantile the cost of that step is \<open>NaN\<close>, which the comparison \<open>>\<close> never
  selects. Nothing is raised.
\<close>

theorem scan_divides_by_zero_at_last_step:
  assumes "dataset \<noteq> []"
  shows "length (scan_trace dataset q) = length dataset
    \<and> (\<forall>i < length dataset.
          (float64 ((int (length dataset) - int i) - 1) = Fin 0) = (Suc i = length dataset))
    \<and> (\<forall>i. Suc i < length dataset
          \<longrightarrow> (\<forall>c \<in> set (fst (scan_trace dataset q ! i)). finite_f64 c))
    \<and> (\<forall>c \<in> set (fst (last (scan_trace dataset q))). \<not> finite_f64 c)
    \<and> (q \<noteq> [] \<longrightarrow> snd (last (scan_trace dataset q)) = NaN
                  \<and> \<not> first_max (segment_costs dataset q) (length dataset - 1))"
proof -
  define F where "F = map (ecdf (Float64s dataset)) q"
  define fc where "fc = sumCost F (int (length dataset))"
  have tr: "scan_trace dataset q = segment_trace dataset q F fc [0..<length dataset] F"
    by (simp add: scan_trace_unfold F_def fc_def)
  have len: "length (scan_trace dataset q) = length dataset"
    by (simp add: tr length_segment_trace)
  have sorted: "Float64s dataset \<noteq> []"
    using assms length_Float64s [of dataset] by auto
  have F: "length F = length q" "\<forall>c \<in> set F. finite_f64 c"
    using ecdf_finite [OF sorted] by (simp_all add: F_def)
  have pos: "0 < length dataset" using assms by simp
  from segment_trace_steps [OF F pos, of F fc]
  have steps: "\<forall>p. p + 1 < length dataset
           \<longrightarrow> (\<forall>c \<in> set (fst (scan_trace dataset q ! p)). finite_f64 c)"
    and last_nf: "\<forall>c \<in> set (fst (last (scan_trace dataset q))). \<not> finite_f64 c"
    and last_cost: "q \<noteq> [] \<longrightarrow> snd (last (scan_trace dataset q)) = NaN"
    by (simp_all add: tr)
  have divisor: "\<forall>i < length dataset.
          (float64 ((int (length dataset) - int i) - 1) = Fin 0) = (Suc i = length dataset)"
    by (auto simp: float64_def)
  have nomax: "\<not> first_max (segment_costs dataset q) (length dataset - 1)" if "q \<noteq> []"
  proof -
    have ne: "scan_trace dataset q \<noteq> []" using len assms by auto
    have "segment_costs dataset q ! (length dataset - 1) = snd (last (scan_trace dataset q))"
      using len pos ne by (simp add: segment_costs_def last_conv_nth)
    then have "segment_costs dataset q ! (length dataset - 1) = NaN"
      using last_cost that by simp
    then show ?thesis by (simp add: first_max_def fgt_def)
  qed
  show ?thesis
    using len divisor steps last_nf last_cost nomax by simp
qed

lemma trace_example:
  "scan_trace [Fin 0, Fin 0, Fin 1] [Fin 0]
     = [([Fin (1 / 4)],
         Fin (2 * (2 * (1 / 4 * ln (1 / 4) - 3 / 4 * ln (3 / 4))
                   - 3 * (1 / 3 * ln (1 / 3) - 2 / 3 * ln (2 / 3))))),
        ([Fin 0], Fin (2 * (0 - 3 * (1 / 3 * ln (1 / 3) - 2 / 3 * ln (2 / 3))))),
        ([NaN], NaN)]"
  unfolding scan_trace_def
  by (simp add: E2 E4 fullCost_example upt_rec [of 0] upt_rec [of 1] upt_rec [of 2]
      numeral_3_eq_3 S0 [simplified] S1 [simplified] S2 [simplified])

text \<open>On the window \<open>[0, 0, 1]\<close> with its quantile value 0 the last step computes
  \<open>(0 * 1 - 0) / 0\<close>: the right-segment estimate and the cost of the step are \<open>NaN\<close>.\<close>

theorem scan_terminal_step_counterexample:
  "last (scan_trace [Fin 0, Fin 0, Fin 1] [Fin 0]) = ([NaN], NaN)"
  by (simp add: trace_example)

theorem scan_divides_by_zero_at_last_step_witness:
  "length (scan_trace [Fin 0, Fin 0, Fin 1] [Fin 0]) = 3
   \<and> list_all finite_f64 (fst (scan_trace [Fin 0, Fin 0, Fin 1] [Fin 0] ! 0))
   \<and> list_all finite_f64 (fst (scan_trace [Fin 0, Fin 0, Fin 1] [Fin 0] ! 1))
   \<and> list_all (\<lambda>c. c = PInf \<or> c = NInf \<or> c = NaN)
         (fst (last (scan_trace [Fin 0, Fin 0, Fin 1] [Fin 0])))
   \<and> snd (last (scan_trace [Fin 0, Fin 0, Fin 1] [Fin 0])) = NaN"
proof -
  have ne: "[Fin 0, Fin 0, Fin 1] \<noteq> []" by simp
  have nf: "(\<not> finite_f64 c) = (c = PInf \<or> c = NInf \<or> c = NaN)" for c
    by (cases c) (simp_all add: finite_f64_def)
  from scan_divides_by_zero_at_last_step [OF ne, of "[Fin 0]"] show ?thesis
    by (simp add: less_Suc_eq numeral_2_eq_2 numeral_3_eq_3 list_all_iff nf)
qed

section \<open>The running maximum on the two windows\<close>

lemma GetFull_tie_example:
  "GetFull \<lparr>data = [Fin 1, Fin 0, Fin 1], count = 4\<rparr> = Some [Fin 0, Fin 1, Fin 1]"
  by (simp add: GetFull_def get_def Full_def Len_def marker_def)

lemma costs_flat_example: "segment_costs [Fin 0, Fin 0, Fin 1] [] = [Fin 0, Fin 0, Fin 0]"
  unfolding segment_costs_def scan_trace_def
  by (simp add: E2 upt_rec [of 0] upt_rec [of 1] upt_rec [of 2] numeral_3_eq_3
      segment_cost_def windowUpdate_def sumCost_def fsub_def Let_def)

theorem Process_reports_first_maximum_witness:
  "(\<exists>c. Process \<lparr>window = \<lparr>data = [Fin 0, Fin 0, Fin 1], count = 3\<rparr>\<rparr> (Fin 1) 1
          = Inr (\<lparr>window = \<lparr>data = [Fin 1, Fin 0, Fin 1], count = 4\<rparr>\<rparr>, Inr c)
       \<and> segment_costs [Fin 0, Fin 1, Fin 1] [Fin (2 / 21)] ! 0
           = segment_costs [Fin 0, Fin 1, Fin 1] [Fin (2 / 21)] ! 1
       \<and> c = \<lparr>dataIndex = 0,
               costValue = segment_costs [Fin 0, Fin 1, Fin 1] [Fin (2 / 21)] ! 0\<rparr>)
   \<and> Process \<lparr>window = \<lparr>data = [Fin 0, Fin 0, Fin 0], count = 2\<rparr>\<rparr> (Fin 1) 0
          = Inr (\<lparr>window = \<lparr>data = [Fin 0, Fin 0, Fin 1], count = 3\<rparr>\<rparr>,
                 Inr \<lparr>dataIndex = 0, costValue = Fin 0\<rparr>)"
proof
  from Process_tie_example obtain c0 where pos: "0 < c0"
    and cs: "segment_costs [Fin 0, Fin 1, Fin 1] [Fin (2 / 21)] = [Fin c0, Fin c0, NaN]"
    and run: "Process \<lparr>window = \<lparr>data = [Fin 0, Fin 0, Fin 1], count = 3\<rparr>\<rparr> (Fin 1) 1
         = Inr (\<lparr>window = \<lparr>data = [Fin 1, Fin 0, Fin 1], count = 4\<rparr>\<rparr>,
                Inr \<lparr>dataIndex = 0, costValue = Fin c0\<rparr>)" by blast
  from Process_reports_first_maximum [OF run] obtain dataset q where
    g: "GetFull (window \<lparr>window = \<lparr>data = [Fin 1, Fin 0, Fin 1], count = 4\<rparr>\<rparr>) = Some dataset"
    and q: "quantiles (Float64s dataset) 1 = Inr q"
    and first: "\<forall>i. first_max (segment_costs dataset q) i
           \<longrightarrow> \<lparr>dataIndex = 0, costValue = Fin c0\<rparr>
               = \<lparr>dataIndex = Count (window \<lparr>window = \<lparr>data = [Fin 1, Fin 0, Fin 1], count = 4\<rparr>\<rparr>)
                     - 1 - Cap (window \<lparr>window = \<lparr>data = [Fin 1, Fin 0, Fin 1], count = 4\<rparr>\<rparr>)
                     + of_nat i,
                  costValue = segment_costs dataset q ! i\<rparr>"
    by blast
  have d: "dataset = [Fin 0, Fin 1, Fin 1]"
    using g GetFull_tie_example by simp
  have q': "q = [Fin (2 / 21)]"
    using q by (simp add: d F2 F3)
  have "first_max (segment_costs dataset q) 0"
    using first_max_tie_example [OF pos] by (simp add: d q' cs)
  with first have "\<lparr>dataIndex = 0, costValue = Fin c0\<rparr>
      = \<lparr>dataIndex = 0, costValue = segment_costs [Fin 0, Fin 1, Fin 1] [Fin (2 / 21)] ! 0\<rparr>"
    by (simp add: d q' cs)
  then show "\<exists>c. Process \<lparr>window = \<lparr>data = [Fin 0, Fin 0, Fin 1], count = 3\<rparr>\<rparr> (Fin 1) 1
          = Inr (\<lparr>window = \<lparr>data = [Fin 1, Fin 0, Fin 1], count = 4\<rparr>\<rparr>, Inr c)
       \<and> segment_costs [Fin 0, Fin 1, Fin 1] [Fin (2 / 21)] ! 0
           = segment_costs [Fin 0, Fin 1, Fin 1] [Fin (2 / 21)] ! 1
       \<and> c = \<lparr>dataIndex = 0,
               costValue = segment_costs [Fin 0, Fin 1, Fin 1] [Fin (2 / 21)] ! 0\<rparr>"
    using run cs by (intro exI [of _ "\<lparr>dataIndex = 0, costValue = Fin c0\<rparr>"]) simp
next
  have q0: "quantiles (Float64s [Fin 0, Fin 0, Fin 1]) 0 = Inr []"
    by (simp add: quantiles_def)
  have pg: "PushGetFull (window \<lparr>window = \<lparr>data = [Fin 0, Fin 0, Fin 0], count = 2\<rparr>\<rparr>) (Fin 1)
     = Inr (\<lparr>data = [Fin 0, Fin 0, Fin 1], count = 3\<rparr>, 3, Some [Fin 0, Fin 0, Fin 1])"
    using E1 by simp
  from Process_eval [OF pg q0] obtain c where
    run: "Process \<lparr>window = \<lparr>data = [Fin 0, Fin 0, Fin 0], count = 2\<rparr>\<rparr> (Fin 1) 0
         = Inr (\<lparr>window = \<lparr>data = [Fin 0, Fin 0, Fin 1], count = 3\<rparr>\<rparr>, Inr c)"
    by simp
  from Process_reports_first_maximum [OF run] obtain dataset q where
    g: "GetFull (window \<lparr>window = \<lparr>data = [Fin 0, Fin 0, Fin 1], count = 3\<rparr>\<rparr>) = Some dataset"
    and q: "quantiles (Float64s dataset) 0 = Inr q"
    and none: "(\<forall>i < length (segment_costs dataset q). \<not> fgt (segment_costs dataset q ! i) (Fin 0))
           \<longrightarrow> c = \<lparr>dataIndex = 0, costValue = Fin 0\<rparr>"
    by blast
  have d: "dataset = [Fin 0, Fin 0, Fin 1]"
    using g by (simp add: GetFull_def get_def Full_def Len_def marker_def)
  have q': "q = []"
    using q by (simp add: d quantiles_def)
  have "c = \<lparr>dataIndex = 0, costValue = Fin 0\<rparr>"
    using none by (simp add: d q' costs_flat_example fgt_def less_Suc_eq)
  then show "Process \<lparr>window = \<lparr>data = [Fin 0, Fin 0, Fin 0], count = 2\<rparr>\<rparr> (Fin 1) 0
          = Inr (\<lparr>window = \<lparr>data = [Fin 0, Fin 0, Fin 1], count = 3\<rparr>\<rparr>,
                 Inr \<lparr>dataIndex = 0, costValue = Fin 0\<rparr>)"
    using run by simp
qed

section \<open>Four observations pushed into a detector\<close>

lemma PushGetFull_warmup_1:
  "PushGetFull \<lparr>data = [Fin 0, Fin 0, Fin 0], count = 0\<rparr> (Fin 0)
     = Inr (\<lparr>data = [Fin 0, Fin 0, Fin 0], count = 1\<rparr>, 1, None)"
  by (simp add: PushGetFull_def push_def marker_def get_def Full_def Len_def word_le_nat_alt)

lemma PushGetFull_warmup_2:
  "PushGetFull \<lparr>data = [Fin 0, Fin 0, Fin 0], count = 1\<rparr> (Fin 0)
     = Inr (\<lparr>data = [Fin 0, Fin 0, Fin 0], count = 2\<rparr>, 2, None)"
  by (simp add: PushGetFull_def push_def marker_def get_def Full_def Len_def word_le_nat_alt)

lemma Process_warmup_1:
  "Process \<lparr>window = \<lparr>data = [Fin 0, Fin 0, Fin 0], count = 0\<rparr>\<rparr> (Fin 0) 1
     = Inr (\<lparr>window = \<lparr>data = [Fin 0, Fin 0, Fin 0], count = 1\<rparr>\<rparr>, Inl ErrWindowNotFull)"
  by (simp add: Process_def PushGetFull_warmup_1)

lemma Process_warmup_2:
  "Process \<lparr>window = \<lparr>data = [Fin 0, Fin 0, Fin 0], count = 1\<rparr>\<rparr> (Fin 0) 1
     = Inr (\<lparr>window = \<lparr>data = [Fin 0, Fin 0, Fin 0], count = 2\<rparr>\<rparr>, Inl ErrWindowNotFull)"
  by (simp add: Process_def PushGetFull_warmup_2)

lemma NewNUNC_example:
  "NewNUNC 3 1 [OptThreshold (Fin 0)]
     = Inr \<lparr>processor = \<lparr>window = \<lparr>data = [Fin 0, Fin 0, Fin 0], count = 0\<rparr>\<rparr>,
            threshold = Some (ThresholdStatic (Fin 0)), windowSize = 3, quantileCount = 1,
            changepoints = []\<rparr>"
  by (simp add: NewNUNC_def New_def NewWindow_def OptThreshold_def NewThresholdStatic_def
      numeral_3_eq_3)

lemma Push_example_1:
  "NUNC_Push \<lparr>processor = \<lparr>window = \<lparr>data = [Fin 0, Fin 0, Fin 0], count = 0\<rparr>\<rparr>,
            threshold = Some (ThresholdStatic (Fin 0)), windowSize = 3, quantileCount = 1,
            changepoints = []\<rparr> (Fin 0)
     = Inr (\<lparr>processor = \<lparr>window = \<lparr>data = [Fin 0, Fin 0, Fin 0], count = 1\<rparr>\<rparr>,
            threshold = Some (ThresholdStatic (Fin 0)), windowSize = 3, quantileCount = 1,
            changepoints = []\<rparr>, 0)"
  by (simp add: NUNC_Push_def Process_warmup_1)

lemma Push_example_2:
  "NUNC_Push \<lparr>processor = \<lparr>window = \<lparr>data = [Fin 0, Fin 0, Fin 0], count = 1\<rparr>\<rparr>,
            threshold = Some (ThresholdStatic (Fin 0)), windowSize = 3, quantileCount = 1,
            changepoints = []\<rparr> (Fin 0)
     = Inr (\<lparr>processor = \<lparr>window = \<lparr>data = [Fin 0, Fin 0, Fin 0], count = 2\<rparr>\<rparr>,
            threshold = Some (ThresholdStatic (Fin 0)), windowSize = 3, quantileCount = 1,
            changepoints = []\<rparr>, 0)"
  by (simp add: NUNC_Push_def Process_warmup_2)

lemma Push_example_3:
  "NUNC_Push \<lparr>processor = \<lparr>window = \<lparr>data = [Fin 0, Fin 0, Fin 0], count = 2\<rparr>\<rparr>,
            threshold = Some (ThresholdStatic (Fin 0)), windowSize = 3, quantileCount = 1,
            changepoints = []\<rparr> (Fin 1)
     = Inr (\<lparr>processor = \<lparr>window = \<lparr>data = [Fin 0, Fin 0, Fin 1], count = 3\<rparr>\<rparr>,
            threshold = Some (ThresholdStatic (Fin 0)), windowSize = 3, quantileCount = 1,
            changepoints = [0]\<rparr>, 0)"
proof -
  from Process_example obtain c1 where "0 < c1"
    "Process \<lparr>window = \<lparr>data = [Fin 0, Fin 0, Fin 0], count = 2\<rparr>\<rparr> (Fin 1) 1
         = Inr (\<lparr>window = \<lparr>data = [Fin 0, Fin 0, Fin 1], count = 3\<rparr>\<rparr>,
                Inr \<lparr>dataIndex = 0, costValue = Fin c1\<rparr>)" by blast
  then show ?thesis by (simp add: NUNC_Push_def fgt_def)
qed

lemma Push_example_4:
  "NUNC_Push \<lparr>processor = \<lparr>window = \<lparr>data = [Fin 0, Fin 0, Fin 1], count = 3\<rparr>\<rparr>,
            threshold = Some (ThresholdStatic (Fin 0)), windowSize = 3, quantileCount = 1,
            changepoints = [0]\<rparr> (Fin 1)
     = Inr (\<lparr>processor = \<lparr>window = \<lparr>data = [Fin 1, Fin 0, Fin 1], count = 4\<rparr>\<rparr>,
            threshold = Some (ThresholdStatic (Fin 0)), windowSize = 3, quantileCount = 1,
            changepoints = [0]\<rparr>, 0)"
proof -
  from Process_tie_example obtain c where "0 < c"
    "Process \<lparr>window = \<lparr>data = [Fin 0, Fin 0, Fin 1], count = 3\<rparr>\<rparr> (Fin 1) 1
         = Inr (\<lparr>window = \<lparr>data = [Fin 1, Fin 0, Fin 1], count = 4\<rparr>\<rparr>,
                Inr \<lparr>dataIndex = 0, costValue = Fin c\<rparr>)" by blast
  then show ?thesis by (simp add: NUNC_Push_def fgt_def)
qed

lemma PushAll_example:
  "NUNC_PushAll \<lparr>processor = \<lparr>window = \<lparr>data = [Fin 0, Fin 0, Fin 0], count = 0\<rparr>\<rparr>,
            threshold = Some (ThresholdStatic (Fin 0)), windowSize = 3, quantileCount = 1,
            changepoints = []\<rparr> [Fin 0, Fin 0, Fin 1, Fin 1]
     = Inr (\<lparr>processor = \<lparr>window = \<lparr>data = [Fin 1, Fin 0, Fin 1], count = 4\<rparr>\<rparr>,
            threshold = Some (ThresholdStatic (Fin 0)), windowSize = 3, quantileCount = 1,
            changepoints = [0]\<rparr>, [0, 0, 0, 0])"
  by (simp add: Push_example_1 Push_example_2 Push_example_3 Push_example_4)

theorem Push_never_reports_twice_witness:
  "NUNC_PushAll \<lparr>processor = \<lparr>window = \<lparr>data = [Fin 0, Fin 0, Fin 0], count = 0\<rparr>\<rparr>,
            threshold = Some (ThresholdStatic (Fin 0)), windowSize = 3, quantileCount = 1,
            changepoints = []\<rparr> [Fin 0, Fin 0, Fin 1, Fin 1]
     = Inr (\<lparr>processor = \<lparr>window = \<lparr>data = [Fin 1, Fin 0, Fin 1], count = 4\<rparr>\<rparr>,
            threshold = Some (ThresholdStatic (Fin 0)), windowSize = 3, quantileCount = 1,
            changepoints = [0]\<rparr>, [0, 0, 0, 0])
   \<and> distinct [0 :: uint64]
   \<and> distinct (filter (\<lambda>r. r \<noteq> 0) [0, 0, 0, 0 :: uint64])"
proof -
  have d: "distinct (changepoints \<lparr>processor = \<lparr>window = \<lparr>data = [Fin 0, Fin 0, Fin 0], count = 0\<rparr>\<rparr>,
            threshold = Some (ThresholdStatic (Fin 0)), windowSize = 3, quantileCount = 1,
            changepoints = []\<rparr>)" by simp
  from Push_never_reports_twice [OF d PushAll_example] PushAll_example show ?thesis
    by simp
qed

theorem Push_zero_is_ambiguous_witness:
  "NUNC_Push \<lparr>processor = \<lparr>window = \<lparr>data = [Fin 0, Fin 0, Fin 0], count = 0\<rparr>\<rparr>,
            threshold = Some (ThresholdStatic (Fin 0)), windowSize = 3, quantileCount = 1,
            changepoints = []\<rparr> (Fin 0)
     = Inr (\<lparr>processor = \<lparr>window = \<lparr>data = [Fin 0, Fin 0, Fin 0], count = 1\<rparr>\<rparr>,
            threshold = Some (ThresholdStatic (Fin 0)), windowSize = 3, quantileCount = 1,
            changepoints = []\<rparr>, 0)
   \<and> NUNC_Push \<lparr>processor = \<lparr>window = \<lparr>data = [Fin 0, Fin 0, Fin 0], count = 2\<rparr>\<rparr>,
            threshold = Some (ThresholdStatic (Fin 0)), windowSize = 3, quantileCount = 1,
            changepoints = []\<rparr> (Fin 1)
     = Inr (\<lparr>processor = \<lparr>window = \<lparr>data = [Fin 0, Fin 0, Fin 1], count = 3\<rparr>\<rparr>,
            threshold = Some (ThresholdStatic (Fin 0)), windowSize = 3, quantileCount = 1,
            changepoints = [0]\<rparr>, 0)"
proof
  have run: "Process (processor \<lparr>processor = \<lparr>window = \<lparr>data = [Fin 0, Fin 0, Fin 0], count = 0\<rparr>\<rparr>,
            threshold = Some (ThresholdStatic (Fin 0)), windowSize = 3, quantileCount = 1,
            changepoints = []\<rparr>) (Fin 0)
        (quantileCount \<lparr>processor = \<lparr>window = \<lparr>data = [Fin 0, Fin 0, Fin 0], count = 0\<rparr>\<rparr>,
            threshold = Some (ThresholdStatic (Fin 0)), windowSize = 3, quantileCount = 1,
            changepoints = []\<rparr>)
     = Inr (\<lparr>window = \<lparr>data = [Fin 0, Fin 0, Fin 0], count = 1\<rparr>\<rparr>, Inl ErrWindowNotFull)"
    using Process_warmup_1 by simp
  from Push_zero_is_ambiguous [OF run]
  show "NUNC_Push \<lparr>processor = \<lparr>window = \<lparr>data = [Fin 0, Fin 0, Fin 0], count = 0\<rparr>\<rparr>,
            threshold = Some (ThresholdStatic (Fin 0)), windowSize = 3, quantileCount = 1,
            changepoints = []\<rparr> (Fin 0)
     = Inr (\<lparr>processor = \<lparr>window = \<lparr>data = [Fin 0, Fin 0, Fin 0], count = 1\<rparr>\<rparr>,
            threshold = Some (ThresholdStatic (Fin 0)), windowSize = 3, quantileCount = 1,
            changepoints = []\<rparr>, 0)"
    by simp
next
  from Process_example obtain c1 where pos: "0 < c1" and
    "Process \<lparr>window = \<lparr>data = [Fin 0, Fin 0, Fin 0], count = 2\<rparr>\<rparr> (Fin 1) 1
         = Inr (\<lparr>window = \<lparr>data = [Fin 0, Fin 0, Fin 1], count = 3\<rparr>\<rparr>,
                Inr \<lparr>dataIndex = 0, costValue = Fin c1\<rparr>)" by blast
  then have run: "Process (processor \<lparr>processor = \<lparr>window = \<lparr>data = [Fin 0, Fin 0, Fin 0], count = 2\<rparr>\<rparr>,
            threshold = Some (ThresholdStatic (Fin 0)), windowSize = 3, quantileCount = 1,
            changepoints = []\<rparr>) (Fin 1)
        (quantileCount \<lparr>processor = \<lparr>window = \<lparr>data = [Fin 0, Fin 0, Fin 0], count = 2\<rparr>\<rparr>,
            threshold = Some (ThresholdStatic (Fin 0)), windowSize = 3, quantileCount = 1,
            changepoints = []\<rparr>)
     = Inr (\<lparr>window = \<lparr>data = [Fin 0, Fin 0, Fin 1], count = 3\<rparr>\<rparr>,
            Inr \<lparr>dataIndex = 0, costValue = Fin c1\<rparr>)"
    by simp
  from Push_zero_is_ambiguous [OF run] pos
  show "NUNC_Push \<lparr>processor = \<lparr>window = \<lparr>data = [Fin 0, Fin 0, Fin 0], count = 2\<rparr>\<rparr>,
            threshold = Some (ThresholdStatic (Fin 0)), windowSize = 3, quantileCount = 1,
            changepoints = []\<rparr> (Fin 1)
     = Inr (\<lparr>processor = \<lparr>window = \<lparr>data = [Fin 0, Fin 0, Fin 1], count = 3\<rparr>\<rparr>,
            threshold = Some (ThresholdStatic (Fin 0)), windowSize = 3, quantileCount = 1,
            changepoints = [0]\<rparr>, 0)"
    by (simp add: fgt_def)
qed

end
